theory Spec2Isabelle
  imports Complex_Main "HOL-Library.AList"
begin

section \<open>The orchestration core of the dynamic theme (src/inject/dynamic-theme/index.ts)\<close>

text \<open>
  The module keeps its state in module-level variables and in the document. The model
  threads one record through every function: the part of the document the module reads
  and writes, the module-level variables, and the observable state of the collaborators
  it drives (managers, watchers, the render throttle), the latter as a list of effects.
  A JavaScript exception does not roll back what was written before it, so a function
  that can throw returns either \<open>Ok\<close> with its result or \<open>Threw\<close> with the error and
  the state reached at the throw.
\<close>

subsection \<open>Values\<close>

type_synonym node = nat
type_synonym vars = "(string \<times> string) list"

datatype readiness = Loading | Interactive | Complete

datatype error = TypeError | NotFoundError

record element =
  tagName :: string
  classList :: "string list"
  media :: string
  textContent :: string

text \<open>The fields of \<open>FilterConfig\<close> and \<open>DynamicThemeFix\<close> (../../definitions) that the
  module reads. \<open>invert\<close> is \<open>None\<close> when the field is not an array.\<close>

record filterConfig =
  mode :: real
  contrast :: real
  useFont :: bool
  textStroke :: real

record dynamicThemeFix =
  invert :: "string list option"

record styleManager =
  managedElement :: node
  loadingStyleId :: nat

datatype effect =
    ManagerRender node
  | ManagerWatch node
  | ManagerPause node
  | ManagerDestroy node
  | PositionWatcherStart string node
  | PositionWatcherStop string node
  | OverrideInlineStyles
  | CleanModificationCache

text \<open>The imported pure functions and constants, taken as parameters: the CSS generators,
  \<open>STYLE_SELECTOR\<close> and \<open>shouldManageStyle\<close> as predicates on an element,
  \<open>manager.details()\<close> as a function of the managed node, \<open>location.host\<close>.\<close>

record env =
  getModifiedFallbackStyle :: "filterConfig option \<Rightarrow> bool \<Rightarrow> string"
  getModifiedUserAgentStyle :: "filterConfig option \<Rightarrow> bool option \<Rightarrow> string"
  createTextStyle :: "filterConfig \<Rightarrow> string"
  getCSSFilterValue :: "filterConfig \<Rightarrow> string"
  getInlineOverrideStyle :: string
  getSiteOverride :: "string \<Rightarrow> filterConfig option \<Rightarrow> string"
  locationHost :: string
  isFirefox :: bool
  matchesStyleSelector :: "element \<Rightarrow> bool"
  shouldManageStyle :: "element \<Rightarrow> bool"
  details :: "node \<Rightarrow> vars option"
  replaceCSSVariables :: "string \<Rightarrow> vars \<Rightarrow> string"
  clamp :: "real \<Rightarrow> real \<Rightarrow> real \<Rightarrow> real"

subsection \<open>State\<close>

text \<open>
  The document: \<open>elems\<close> is the store of nodes, \<open>nextNode\<close> the next node that
  \<open>document.createElement\<close> returns; \<open>headChildren\<close> are the child nodes of
  \<open>document.head\<close> (\<open>None\<close> when there is no head), \<open>preHead\<close> and \<open>postHead\<close> the
  other nodes of the document before and after the head in tree order. The children of the
  head are leaves (metadata content).
  Then the module-level variables under their own names, and the collaborators:
  \<open>renderSlot\<close> is the pending call of the throttled render (\<open>Some True\<close> when it carries
  the callback that cleans the fallback style), \<open>styleChangeWatcher\<close> and \<open>inlineStyleWatcher\<close>
  say whether the two watchers are armed, \<open>headObservers\<close> counts the connected head
  observers, \<open>visibilityListeners\<close> are the closures registered for \<open>visibilitychange\<close>,
  \<open>readyStateListener\<close> says whether \<open>onReadyStateChange\<close> is registered.
\<close>

record state =
  elems :: "node \<Rightarrow> element"
  nextNode :: node
  preHead :: "node list"
  headChildren :: "node list option"
  postHead :: "node list"
  readyState :: readiness
  hidden :: bool
  readyStateListener :: bool
  visibilityListeners :: "nat list"
  headObservers :: nat
  styleManagers :: "(node \<times> styleManager) list"
  variables :: vars
  filterConfig :: "filterConfig option"
  themeFixes :: "dynamicThemeFix option"
  isIFrame :: "bool option"
  stylePositionWatchers :: "(string \<times> node) list"
  loadingStylesCounter :: nat
  loadingStyles :: "nat list"
  documentVisibilityListener :: "nat option"
  nextClosure :: nat
  renderSlot :: "bool option"
  styleChangeWatcher :: bool
  inlineStyleWatcher :: bool
  effects :: "effect list"

datatype 'a outcome = Ok 'a state | Threw error state

definition andThen :: "'a outcome \<Rightarrow> ('a \<Rightarrow> state \<Rightarrow> 'b outcome) \<Rightarrow> 'b outcome" where
  "andThen r f = (case r of Ok x s \<Rightarrow> f x s | Threw e s \<Rightarrow> Threw e s)"

fun stateOf :: "'a outcome \<Rightarrow> state" where
  "stateOf (Ok x s) = s"
| "stateOf (Threw e s) = s"

fun threw :: "'a outcome \<Rightarrow> bool" where
  "threw (Ok x s) = False"
| "threw (Threw e s) = True"

subsection \<open>The document operations the module calls\<close>

definition hasClass :: "(node \<Rightarrow> element) \<Rightarrow> string \<Rightarrow> node \<Rightarrow> bool" where
  "hasClass st c n = (c \<in> set (classList (st n)))"

text \<open>\<open>root.querySelector('.c')\<close> over the nodes of \<open>root\<close> in tree order.\<close>

definition querySelectorIn :: "(node \<Rightarrow> element) \<Rightarrow> string \<Rightarrow> node list \<Rightarrow> node option" where
  "querySelectorIn st c ns = List.find (hasClass st c) ns"

definition documentNodes :: "state \<Rightarrow> node list" where
  "documentNodes s = preHead s @ (case headChildren s of None \<Rightarrow> [] | Some cs \<Rightarrow> cs) @ postHead s"

definition documentQuerySelector :: "string \<Rightarrow> state \<Rightarrow> node option" where
  "documentQuerySelector c s = querySelectorIn (elems s) c (documentNodes s)"

definition documentQuerySelectorAll :: "(element \<Rightarrow> bool) \<Rightarrow> state \<Rightarrow> node list" where
  "documentQuerySelectorAll p s = filter (\<lambda>n. p (elems s n)) (documentNodes s)"

definition firstChild :: "node list \<Rightarrow> node option" where
  "firstChild cs = (case cs of [] \<Rightarrow> None | c # _ \<Rightarrow> Some c)"

fun nextSiblingIn :: "node \<Rightarrow> node list \<Rightarrow> node option" where
  "nextSiblingIn n [] = None"
| "nextSiblingIn n (c # cs) = (if c = n then firstChild cs else nextSiblingIn n cs)"

text \<open>\<open>x.nextSibling\<close>: at every place the module reads it, \<open>x\<close> has just been inserted
  under the head.\<close>

definition nextSibling :: "node \<Rightarrow> state \<Rightarrow> node option" where
  "nextSibling n s = (case headChildren s of None \<Rightarrow> None | Some cs \<Rightarrow> nextSiblingIn n cs)"

fun insertAt :: "node \<Rightarrow> node \<Rightarrow> node list \<Rightarrow> node list" where
  "insertAt n r [] = []"
| "insertAt n r (c # cs) = (if c = r then n # c # cs else c # insertAt n r cs)"

text \<open>A node has one place in the tree: inserting it removes it from where it was.\<close>

definition detach :: "node \<Rightarrow> state \<Rightarrow> state" where
  "detach n s = s\<lparr>preHead := removeAll n (preHead s),
                  headChildren := map_option (removeAll n) (headChildren s),
                  postHead := removeAll n (postHead s)\<rparr>"

text \<open>\<open>document.head.insertBefore(n, child)\<close>, as the DOM standard has it: with
  \<open>child\<close> null the node is appended; a \<open>child\<close> that is not a child of the head is a
  \<open>NotFoundError\<close>; when \<open>child\<close> is the node itself, the reference becomes the node's
  next sibling.\<close>

definition headInsertBefore :: "node \<Rightarrow> node option \<Rightarrow> state \<Rightarrow> unit outcome" where
  "headInsertBefore n child s =
     (case headChildren s of
        None \<Rightarrow> Threw TypeError s
      | Some cs \<Rightarrow>
          (case child of
             None \<Rightarrow> Ok () ((detach n s)\<lparr>headChildren := Some (removeAll n cs @ [n])\<rparr>)
           | Some c \<Rightarrow>
               if c \<notin> set cs then Threw NotFoundError s
               else (case (if c = n then nextSiblingIn n cs else Some c) of
                       None \<Rightarrow> Ok () ((detach n s)\<lparr>headChildren := Some (removeAll n cs @ [n])\<rparr>)
                     | Some r \<Rightarrow> Ok () ((detach n s)\<lparr>headChildren := Some (insertAt n r (removeAll n cs))\<rparr>))))"

definition headAppendChild :: "node \<Rightarrow> state \<Rightarrow> unit outcome" where
  "headAppendChild n s = headInsertBefore n None s"

text \<open>\<open>document.documentElement.appendChild(n)\<close>: the node becomes the last of the document.\<close>

definition documentElementAppendChild :: "node \<Rightarrow> state \<Rightarrow> state" where
  "documentElementAppendChild n s = (detach n s)\<lparr>postHead := removeAll n (postHead s) @ [n]\<rparr>"

definition setTextContent :: "node \<Rightarrow> string \<Rightarrow> state \<Rightarrow> state" where
  "setTextContent n t s = s\<lparr>elems := (elems s)(n := (elems s n)\<lparr>textContent := t\<rparr>)\<rparr>"

text \<open>Modelled from the spec: \<open>removeNode\<close> of ../utils/dom, which is not among the sources.
  The spec has every element lookup of the teardown null-checked: a missing node is skipped,
  a node is taken out of its parent.\<close>

definition removeNode :: "node option \<Rightarrow> state \<Rightarrow> state" where
  "removeNode n s = (case n of None \<Rightarrow> s | Some x \<Rightarrow> detach x s)"

subsection \<open>Static style overrides\<close>

definition createOrUpdateStyle :: "string \<Rightarrow> state \<Rightarrow> node outcome" where
  "createOrUpdateStyle className s =
     (case headChildren s of
        None \<Rightarrow> Threw TypeError s
      | Some cs \<Rightarrow>
          (case querySelectorIn (elems s) className cs of
             Some style \<Rightarrow> Ok style s
           | None \<Rightarrow>
               Ok (nextNode s)
                  (s\<lparr>nextNode := Suc (nextNode s),
                     elems := (elems s)(nextNode s :=
                       \<lparr>tagName = ''style'', classList = [''darkreader'', className],
                        media = ''screen'', textContent = []\<rparr>)\<rparr>)))"

text \<open>Modelled from the spec: \<open>watchForNodePosition\<close> of ../utils/dom is not among the
  sources. A watcher is known by the node it watches; starting and stopping one are effects.\<close>

definition setupStylePositionWatcher :: "node \<Rightarrow> string \<Rightarrow> state \<Rightarrow> state" where
  "setupStylePositionWatcher n alias s =
     (let s1 = (case map_of (stylePositionWatchers s) alias of
                  None \<Rightarrow> s
                | Some w \<Rightarrow> s\<lparr>effects := effects s @ [PositionWatcherStop alias w]\<rparr>)
      in s1\<lparr>stylePositionWatchers := AList.update alias n (stylePositionWatchers s1),
            effects := effects s1 @ [PositionWatcherStart alias n]\<rparr>)"

definition stopStylePositionWatchers :: "state \<Rightarrow> state" where
  "stopStylePositionWatchers s =
     s\<lparr>effects := effects s @ map (\<lambda>(alias, w). PositionWatcherStop alias w) (stylePositionWatchers s),
       stylePositionWatchers := []\<rparr>"

text \<open>\<open>xs.join(sep)\<close>\<close>

fun joinWith :: "string \<Rightarrow> string list \<Rightarrow> string" where
  "joinWith sep [] = []"
| "joinWith sep [x] = x"
| "joinWith sep (x # y # ys) = x @ sep @ joinWith sep (y # ys)"

definition headFirstChild :: "state \<Rightarrow> node option" where
  "headFirstChild s = (case headChildren s of None \<Rightarrow> None | Some cs \<Rightarrow> firstChild cs)"

text \<open>The six blocks of \<open>createStaticStyleOverrides\<close>, in the order of the source.\<close>

definition staticFallback :: "env \<Rightarrow> state \<Rightarrow> node outcome" where
  "staticFallback E s =
     andThen (createOrUpdateStyle ''darkreader--fallback'' s) (\<lambda>fallbackStyle s1.
     andThen (headInsertBefore fallbackStyle (headFirstChild s1) s1) (\<lambda>_ s2.
       Ok fallbackStyle
              (setupStylePositionWatcher fallbackStyle ''fallback''
             (setTextContent fallbackStyle (getModifiedFallbackStyle E (filterConfig s2) True) s2))))"

definition staticUserAgent :: "env \<Rightarrow> node \<Rightarrow> state \<Rightarrow> unit outcome" where
  "staticUserAgent E fallbackStyle s =
     andThen (createOrUpdateStyle ''darkreader--user-agent'' s) (\<lambda>userAgentStyle s1.
     andThen (headInsertBefore userAgentStyle (nextSibling fallbackStyle s1) s1) (\<lambda>_ s2.
       Ok () (setupStylePositionWatcher userAgentStyle ''user-agent''
             (setTextContent userAgentStyle
                (getModifiedUserAgentStyle E (filterConfig s2) (isIFrame s2)) s2))))"

definition staticText :: "env \<Rightarrow> node \<Rightarrow> state \<Rightarrow> node outcome" where
  "staticText E fallbackStyle s =
     andThen (createOrUpdateStyle ''darkreader--text'' s) (\<lambda>textStyle s1.
     andThen (headInsertBefore textStyle (nextSibling fallbackStyle s1) s1) (\<lambda>_ s2.
       (case filterConfig s2 of
          None \<Rightarrow> Threw TypeError s2
        | Some f \<Rightarrow>
            Ok textStyle
              (setupStylePositionWatcher textStyle ''text''
                  (setTextContent textStyle
                     (if useFont f \<or> textStroke f > 0 then createTextStyle E f else []) s2)))))"

definition invertCSS :: "env \<Rightarrow> string list \<Rightarrow> filterConfig \<Rightarrow> string" where
  "invertCSS E selectors f =
     joinWith [CHR 0x0A]
       [joinWith '', '' selectors @ '' {'',
        ''    filter: '' @
          getCSSFilterValue E
            (f\<lparr>contrast := (if mode f = 0 then contrast f else clamp E (contrast f - 10) 0 100)\<rparr>) @
          '' !important;'',
        ''}'']"

definition staticInvert :: "env \<Rightarrow> node \<Rightarrow> state \<Rightarrow> node outcome" where
  "staticInvert E textStyle s =
     andThen (createOrUpdateStyle ''darkreader--invert'' s) (\<lambda>invertStyle s1.
     andThen (headInsertBefore invertStyle (nextSibling textStyle s1) s1) (\<lambda>_ s2.
       (case (case themeFixes s2 of None \<Rightarrow> None | Some fx \<Rightarrow> invert fx) of
          Some (sel # sels) \<Rightarrow>
            (case filterConfig s2 of
               None \<Rightarrow> Threw TypeError s2
             | Some f \<Rightarrow>
                 Ok invertStyle
              (setupStylePositionWatcher invertStyle ''invert''
                       (setTextContent invertStyle (invertCSS E (sel # sels) f) s2)))
        | _ \<Rightarrow>
            Ok invertStyle
              (setupStylePositionWatcher invertStyle ''invert''
                  (setTextContent invertStyle [] s2)))))"

definition staticInline :: "env \<Rightarrow> node \<Rightarrow> state \<Rightarrow> unit outcome" where
  "staticInline E invertStyle s =
     andThen (createOrUpdateStyle ''darkreader--inline'' s) (\<lambda>inlineStyle s1.
     andThen (headInsertBefore inlineStyle (nextSibling invertStyle s1) s1) (\<lambda>_ s2.
       Ok () (setupStylePositionWatcher inlineStyle ''inline''
             (setTextContent inlineStyle (getInlineOverrideStyle E) s2))))"

definition staticOverride :: "env \<Rightarrow> state \<Rightarrow> unit outcome" where
  "staticOverride E s =
     andThen (createOrUpdateStyle ''darkreader--override'' s) (\<lambda>overrideStyle s1.
     andThen (headAppendChild overrideStyle s1) (\<lambda>_ s2.
       Ok () (setupStylePositionWatcher overrideStyle ''override''
             (setTextContent overrideStyle
                (getSiteOverride E (locationHost E) (filterConfig s2)) s2))))"

definition createStaticStyleOverrides :: "env \<Rightarrow> state \<Rightarrow> unit outcome" where
  "createStaticStyleOverrides E s =
     andThen (staticFallback E s) (\<lambda>fallbackStyle s1.
     andThen (staticUserAgent E fallbackStyle s1) (\<lambda>_ s2.
     andThen (staticText E fallbackStyle s2) (\<lambda>textStyle s3.
     andThen (staticInvert E textStyle s3) (\<lambda>invertStyle s4.
     andThen (staticInline E invertStyle s4) (\<lambda>_ s5.
       staticOverride E s5)))))"

definition cleanFallbackStyle :: "state \<Rightarrow> unit outcome" where
  "cleanFallbackStyle s =
     (case headChildren s of
        None \<Rightarrow> Threw TypeError s
      | Some cs \<Rightarrow>
          (case querySelectorIn (elems s) ''darkreader--fallback'' cs of
             None \<Rightarrow> Ok () s
           | Some fallback \<Rightarrow> Ok () (setTextContent fallback [] s)))"

subsection \<open>Managers, variables, loading\<close>

definition isPageLoaded :: "state \<Rightarrow> bool" where
  "isPageLoaded s = (readyState s = Complete \<or> readyState s = Interactive)"

definition hasManager :: "node \<Rightarrow> state \<Rightarrow> bool" where
  "hasManager n s = (map_of (styleManagers s) n \<noteq> None)"

text \<open>\<open>newVars.forEach(set)\<close>, then \<open>variables.forEach\<close> over the table in insertion order:
  each entry is rewritten in place with the table as it is at that moment.\<close>

fun substituteEntries :: "(string \<Rightarrow> vars \<Rightarrow> string) \<Rightarrow> vars \<Rightarrow> vars \<Rightarrow> vars" where
  "substituteEntries rep seen [] = seen"
| "substituteEntries rep seen ((key, v) # todo) =
     substituteEntries rep (seen @ [(key, rep v (seen @ (key, v) # todo))]) todo"

definition updateVariablesTable :: "(string \<Rightarrow> vars \<Rightarrow> string) \<Rightarrow> vars \<Rightarrow> vars \<Rightarrow> vars" where
  "updateVariablesTable rep newVars table =
     (if newVars = [] then table
      else substituteEntries rep []
             (fold (\<lambda>(key, v) t. AList.update key v t) newVars table))"

definition updateVariables :: "env \<Rightarrow> vars \<Rightarrow> state \<Rightarrow> state" where
  "updateVariables E newVars s =
     s\<lparr>variables := updateVariablesTable (replaceCSSVariables E) newVars (variables s)\<rparr>"

text \<open>Modelled from the spec: \<open>throttle\<close> of ../utils/throttle is not among the sources. The
  spec has one slot: a call replaces the pending call, the pending call runs once, with
  the state of that moment, and \<open>cancel\<close> empties the slot.\<close>

definition throttledRenderAllStyles :: "bool \<Rightarrow> state \<Rightarrow> state" where
  "throttledRenderAllStyles callback s = s\<lparr>renderSlot := Some callback\<rparr>"

definition cancelRendering :: "state \<Rightarrow> state" where
  "cancelRendering s = s\<lparr>renderSlot := None\<rparr>"

definition renderManagers :: "node list \<Rightarrow> state \<Rightarrow> state" where
  "renderManagers ns s = s\<lparr>effects := effects s @ map ManagerRender ns\<rparr>"

text \<open>The function wrapped by \<open>throttle\<close>; the only callback ever passed is the one of
  \<open>createDynamicStyleOverrides\<close>.\<close>

definition renderAllStyles :: "bool \<Rightarrow> state \<Rightarrow> unit outcome" where
  "renderAllStyles callback s =
     (let s1 = renderManagers (map fst (styleManagers s)) s
      in if callback \<and> loadingStyles s1 = [] then cleanFallbackStyle s1 else Ok () s1)"

definition animationFrame :: "state \<Rightarrow> unit outcome" where
  "animationFrame s =
     (case renderSlot s of
        None \<Rightarrow> Ok () s
      | Some callback \<Rightarrow> renderAllStyles callback (s\<lparr>renderSlot := None\<rparr>))"

text \<open>Modelled from the spec: \<open>manageStyle\<close> of ./style-manager is not among the sources. A
  manager is known by its element and by the token its callbacks close over; what it is
  told to do (render, watch, pause, destroy) is recorded as an effect.\<close>

definition createManager :: "node \<Rightarrow> state \<Rightarrow> styleManager option \<times> state" where
  "createManager element s =
     (if hasManager element s then (None, s)
      else (let manager = \<lparr>managedElement = element,
                           loadingStyleId = Suc (loadingStylesCounter s)\<rparr>
            in (Some manager,
                s\<lparr>loadingStylesCounter := Suc (loadingStylesCounter s),
                  styleManagers := AList.update element manager (styleManagers s)\<rparr>)))"

definition loadingStart :: "env \<Rightarrow> nat \<Rightarrow> state \<Rightarrow> unit outcome" where
  "loadingStart E token s =
     (if \<not> isPageLoaded s then
        (let s1 = s\<lparr>loadingStyles := List.insert token (loadingStyles s)\<rparr>
         in case documentQuerySelector ''darkreader--fallback'' s1 of
              None \<Rightarrow> Threw TypeError s1
            | Some fallbackStyle \<Rightarrow>
                if textContent (elems s1 fallbackStyle) = []
                then Ok () (setTextContent fallbackStyle
                           (getModifiedFallbackStyle E (filterConfig s1) False) s1)
                else Ok () s1)
      else Ok () s)"

definition loadingEnd :: "nat \<Rightarrow> state \<Rightarrow> unit outcome" where
  "loadingEnd token s =
     (let s1 = s\<lparr>loadingStyles := removeAll token (loadingStyles s)\<rparr>
      in if loadingStyles s1 = [] \<and> isPageLoaded s1 then cleanFallbackStyle s1 else Ok () s1)"

definition update :: "env \<Rightarrow> styleManager \<Rightarrow> state \<Rightarrow> state" where
  "update E manager s =
     (case details E (managedElement manager) of
        None \<Rightarrow> s
      | Some vs \<Rightarrow>
          if vs = [] then renderManagers [managedElement manager] s
          else throttledRenderAllStyles False (updateVariables E vs s))"

definition removeManager :: "node \<Rightarrow> state \<Rightarrow> state" where
  "removeManager element s =
     (case map_of (styleManagers s) element of
        None \<Rightarrow> s
      | Some manager \<Rightarrow>
          s\<lparr>effects := effects s @ [ManagerDestroy element],
            styleManagers := AList.delete element (styleManagers s)\<rparr>)"

fun createManagers :: "node list \<Rightarrow> state \<Rightarrow> styleManager option list \<times> state" where
  "createManagers [] s = ([], s)"
| "createManagers (style # styles) s =
     (let (m, s1) = createManager style s;
          (ms, s2) = createManagers styles s1
      in (m # ms, s2))"

text \<open>\<open>managers.map(details).filter(nonempty).map(variables)\<close>\<close>

definition collectVariables :: "env \<Rightarrow> styleManager list \<Rightarrow> vars list" where
  "collectVariables E ms =
     List.map_filter
       (\<lambda>m. case details E (managedElement m) of
              None \<Rightarrow> None
            | Some vs \<Rightarrow> if vs = [] then None else Some vs) ms"

definition watchManagers :: "styleManager list \<Rightarrow> state \<Rightarrow> state" where
  "watchManagers ms s = s\<lparr>effects := effects s @ map (\<lambda>m. ManagerWatch (managedElement m)) ms\<rparr>"

definition overrideInlineStyles :: "state \<Rightarrow> state" where
  "overrideInlineStyles s = s\<lparr>effects := effects s @ [OverrideInlineStyles]\<rparr>"

definition createDynamicStyleOverrides :: "env \<Rightarrow> state \<Rightarrow> unit outcome" where
  "createDynamicStyleOverrides E s =
     (let s0 = cancelRendering s;
          styles = filter (\<lambda>style. \<not> hasManager style s0 \<and> shouldManageStyle E (elems s0 style))
                     (documentQuerySelectorAll (matchesStyleSelector E) s0);
          (created, s1) = createManagers styles s0
      in case those created of
           None \<Rightarrow> Threw TypeError s1
         | Some newManagers \<Rightarrow>
             (let newVariables = collectVariables E newManagers
              in andThen
                   (if newVariables = [] then
                      (let s2 = renderManagers (map fst (styleManagers s1)) s1
                       in if loadingStyles s2 = [] then cleanFallbackStyle s2 else Ok () s2)
                    else Ok () (throttledRenderAllStyles True (fold (updateVariables E) newVariables s1)))
                   (\<lambda>_ s3. Ok () (overrideInlineStyles (watchManagers newManagers s3)))))"

subsection \<open>Watchers and lifecycle\<close>

definition onReadyStateChange :: "state \<Rightarrow> unit outcome" where
  "onReadyStateChange s =
     (if \<not> isPageLoaded s then Ok () s
      else (let s1 = s\<lparr>readyStateListener := False\<rparr>
            in if loadingStyles s1 = [] then cleanFallbackStyle s1 else Ok () s1))"

text \<open>Every call makes a new listener closure; the callback it is given is always
  \<open>createDynamicStyleOverrides(); watchForUpdates()\<close>, so a closure is known by its identity.\<close>

definition watchForDocumentVisibility :: "state \<Rightarrow> state" where
  "watchForDocumentVisibility s =
     (let alreadyWatching = (documentVisibilityListener s \<noteq> None);
          s1 = s\<lparr>documentVisibilityListener := Some (nextClosure s),
                 nextClosure := Suc (nextClosure s)\<rparr>
      in if \<not> alreadyWatching
         then s1\<lparr>visibilityListeners := visibilityListeners s1 @ [nextClosure s]\<rparr>
         else s1)"

definition stopWatchingForDocumentVisibility :: "state \<Rightarrow> state" where
  "stopWatchingForDocumentVisibility s =
     s\<lparr>visibilityListeners :=
         (case documentVisibilityListener s of
            None \<Rightarrow> visibilityListeners s
          | Some l \<Rightarrow> removeAll l (visibilityListeners s)),
       documentVisibilityListener := None\<rparr>"

text \<open>\<open>Array.from(new Set(xs))\<close>: the first occurrence of each element, in order.\<close>

fun uniqueInOrder :: "node list \<Rightarrow> node list" where
  "uniqueInOrder [] = []"
| "uniqueInOrder (x # xs) = x # uniqueInOrder (removeAll x xs)"

text \<open>The callback that \<open>watchForUpdates\<close> hands to \<open>watchForStyleChanges\<close>.\<close>

definition styleChangesCallback :: "env \<Rightarrow> node list \<Rightarrow> node list \<Rightarrow> node list \<Rightarrow> state \<Rightarrow> unit outcome" where
  "styleChangesCallback E created updated removed s =
     (let movedStyles = filter (\<lambda>style. style \<in> set created) removed;
          s1 = fold removeManager (filter (\<lambda>style. style \<notin> set movedStyles) removed) s;
          styles = filter (\<lambda>style. \<not> hasManager style s1) (uniqueInOrder (created @ updated));
          (made, s2) = createManagers styles s1
      in case those made of
           None \<Rightarrow> Threw TypeError s2
         | Some newManagers \<Rightarrow>
             (let newVariables = collectVariables E newManagers;
                  s3 = (if newVariables = []
                        then renderManagers (map managedElement newManagers) s2
                        else throttledRenderAllStyles False (fold (updateVariables E) newVariables s2))
              in Ok () (watchManagers newManagers s3)))"

text \<open>Modelled from the spec: \<open>watchForStyleChanges\<close> of ./watch and \<open>watchForInlineStyles\<close>
  of ./inline-style are not among the sources. Each is armed or not; the structural watcher
  delivers batches to its callback while it is armed.\<close>

definition watchForUpdates :: "state \<Rightarrow> state" where
  "watchForUpdates s =
     s\<lparr>styleChangeWatcher := True, inlineStyleWatcher := True, readyStateListener := True\<rparr>"

definition stopWatchingForUpdates :: "state \<Rightarrow> state" where
  "stopWatchingForUpdates s =
     (stopStylePositionWatchers
        (s\<lparr>effects := effects s @ map (\<lambda>(n, m). ManagerPause n) (styleManagers s)\<rparr>))
       \<lparr>styleChangeWatcher := False, inlineStyleWatcher := False, readyStateListener := False\<rparr>"

definition visibilityListener :: "env \<Rightarrow> state \<Rightarrow> unit outcome" where
  "visibilityListener E s =
     (if \<not> hidden s then
        andThen (createDynamicStyleOverrides E (stopWatchingForDocumentVisibility s))
          (\<lambda>_ s1. Ok () (watchForUpdates s1))
      else Ok () s)"

definition createThemeAndWatchForUpdates :: "env \<Rightarrow> state \<Rightarrow> unit outcome" where
  "createThemeAndWatchForUpdates E s =
     andThen (createStaticStyleOverrides E s) (\<lambda>_ s1.
       if hidden s1 then Ok () (watchForDocumentVisibility s1)
       else andThen (createDynamicStyleOverrides E s1) (\<lambda>_ s2. Ok () (watchForUpdates s2)))"

definition createOrUpdateDynamicTheme ::
    "env \<Rightarrow> filterConfig \<Rightarrow> dynamicThemeFix option \<Rightarrow> bool \<Rightarrow> state \<Rightarrow> unit outcome" where
  "createOrUpdateDynamicTheme E config dynamicThemeFixes iframe s =
     (let s0 = s\<lparr>filterConfig := Some config, themeFixes := dynamicThemeFixes,
                 isIFrame := Some iframe\<rparr>
      in if headChildren s0 \<noteq> None then createThemeAndWatchForUpdates E s0
         else andThen
                (if \<not> isFirefox E then
                   andThen (createOrUpdateStyle ''darkreader--fallback'' s0) (\<lambda>fallbackStyle s1.
                     Ok () (setTextContent fallbackStyle
                           (getModifiedFallbackStyle E (filterConfig s1) True)
                           (documentElementAppendChild fallbackStyle s1)))
                 else Ok () s0)
                (\<lambda>_ s2. Ok () (s2\<lparr>headObservers := Suc (headObservers s2)\<rparr>)))"

text \<open>The callback of the head observer.\<close>

definition headObserverCallback :: "env \<Rightarrow> state \<Rightarrow> unit outcome" where
  "headObserverCallback E s =
     (if headChildren s \<noteq> None
      then createThemeAndWatchForUpdates E (s\<lparr>headObservers := headObservers s - 1\<rparr>)
      else Ok () s)"

text \<open>Modelled from the spec: \<open>cleanModificationCache\<close> of ./modify-css is not among the
  sources; it clears the cache of that module, which this module never reads.\<close>

definition cleanModificationCache :: "state \<Rightarrow> state" where
  "cleanModificationCache s = s\<lparr>effects := effects s @ [CleanModificationCache]\<rparr>"

definition cleanDynamicThemeCache :: "state \<Rightarrow> state" where
  "cleanDynamicThemeCache s =
     cleanModificationCache
       (stopWatchingForUpdates (cancelRendering (stopWatchingForDocumentVisibility s)))"

definition headQuerySelector :: "string \<Rightarrow> state \<Rightarrow> node option" where
  "headQuerySelector c s =
     (case headChildren s of None \<Rightarrow> None | Some cs \<Rightarrow> querySelectorIn (elems s) c cs)"

definition removeHeadSentinel :: "string \<Rightarrow> state \<Rightarrow> state" where
  "removeHeadSentinel c s = removeNode (headQuerySelector c s) s"

definition removeDynamicTheme :: "state \<Rightarrow> state" where
  "removeDynamicTheme s =
     (let s1 = cleanDynamicThemeCache s;
          s2 = removeNode (documentQuerySelector ''darkreader--fallback'' s1) s1;
          s3 = (if headChildren s2 \<noteq> None
                then removeHeadSentinel ''darkreader--override''
                       (removeHeadSentinel ''darkreader--inline''
                          (removeHeadSentinel ''darkreader--invert''
                             (removeHeadSentinel ''darkreader--text''
                                (removeHeadSentinel ''darkreader--user-agent'' s2))))
                else s2);
          s4 = fold removeManager (map fst (styleManagers s3)) s3
      in fold (\<lambda>n. removeNode (Some n))
           (documentQuerySelectorAll (\<lambda>e. ''darkreader'' \<in> set (classList e)) s4) s4)"

subsection \<open>The substitution of variable references\<close>

text \<open>Modelled from the spec: \<open>replaceCSSVariables\<close> of ./css-rules is not among the sources.
  The spec has it replace the variable-reference tokens inside a value with their current
  value in the table; its example writes a reference to \<open>a\<close> as \<open>var(a)\<close>. A token whose
  name the table does not have stays as it is.\<close>

fun splitAtClose :: "string \<Rightarrow> (string \<times> string) option" where
  "splitAtClose [] = None"
| "splitAtClose (c # cs) =
     (if c = CHR '')'' then Some ([], cs)
      else (case splitAtClose cs of None \<Rightarrow> None | Some (name, rest) \<Rightarrow> Some (c # name, rest)))"

definition variableReference :: "string \<Rightarrow> (string \<times> string) option" where
  "variableReference v = (if take 4 v = ''var('' then splitAtClose (drop 4 v) else None)"

lemma splitAtClose_shorter: "splitAtClose xs = Some (name, rest) \<Longrightarrow> length rest < length xs"
  by (induction xs arbitrary: name) (auto split: if_splits option.splits)

lemma variableReference_shorter: "variableReference v = Some (name, rest) \<Longrightarrow> length rest < length v"
  by (auto simp: variableReference_def dest!: splitAtClose_shorter split: if_splits)

function replaceCSSVariablesSpec :: "string \<Rightarrow> vars \<Rightarrow> string" where
  "replaceCSSVariablesSpec [] table = []"
| "replaceCSSVariablesSpec (c # cs) table =
     (case variableReference (c # cs) of
        None \<Rightarrow> c # replaceCSSVariablesSpec cs table
      | Some (name, rest) \<Rightarrow>
          (case map_of table name of
             None \<Rightarrow> c # replaceCSSVariablesSpec cs table
           | Some resolved \<Rightarrow> resolved @ replaceCSSVariablesSpec rest table))"
  by pat_completeness auto
termination
  by (relation "measure (\<lambda>(v, table). length v)") (auto dest: variableReference_shorter)

subsection \<open>A concrete environment and the state of a freshly loaded module\<close>

definition exampleEnv :: env where
  "exampleEnv =
     \<lparr>getModifiedFallbackStyle = (\<lambda>f strict. if strict then ''html{background:#000}'' else ''html{color:#fff}''),
      getModifiedUserAgentStyle = (\<lambda>f iframe. ''a{color:#39f}''),
      createTextStyle = (\<lambda>f. ''*{font-family:serif}''),
      getCSSFilterValue = (\<lambda>f. ''invert(100%)''),
      getInlineOverrideStyle = ''[data-darkreader-inline-color]{}'',
      getSiteOverride = (\<lambda>host f. ''body{}''),
      locationHost = ''example.org'',
      isFirefox = False,
      matchesStyleSelector = (\<lambda>e. tagName e = ''style'' \<or> tagName e = ''link''),
      shouldManageStyle = (\<lambda>e. ''darkreader'' \<notin> set (classList e)),
      details = (\<lambda>n. Some []),
      replaceCSSVariables = replaceCSSVariablesSpec,
      clamp = (\<lambda>x lo hi. min hi (max lo x))\<rparr>"

definition blankElement :: element where
  "blankElement = \<lparr>tagName = [], classList = [], media = [], textContent = []\<rparr>"

definition initialState :: state where
  "initialState =
     \<lparr>elems = (\<lambda>n. blankElement), nextNode = 0, preHead = [], headChildren = Some [],
      postHead = [], readyState = Loading, hidden = False, readyStateListener = False,
      visibilityListeners = [], headObservers = 0, styleManagers = [], variables = [],
      filterConfig = None, themeFixes = None, isIFrame = None, stylePositionWatchers = [],
      loadingStylesCounter = 0, loadingStyles = [], documentVisibilityListener = None,
      nextClosure = 0, renderSlot = None, styleChangeWatcher = False,
      inlineStyleWatcher = False, effects = []\<rparr>"

subsection \<open>Events\<close>

text \<open>
  What reaches the module from outside: the three exported functions, the callbacks a
  manager was given (known by the token, or by the manager, they close over), the events
  of the document and of the watchers, the animation frame that runs a pending throttled
  render, and a change of the document by the page (the elements it writes, the next
  unused node, and the new lists of nodes). An exception thrown by a handler is
  reported and the event loop goes on with the state as the throw left it.
\<close>

datatype event =
    CreateOrUpdateDynamicTheme filterConfig "dynamicThemeFix option" bool
  | RemoveDynamicTheme
  | CleanDynamicThemeCache
  | LoadingStart nat
  | LoadingEnd nat
  | Update styleManager
  | ReadyStateChange readiness
  | VisibilityChange bool
  | StyleChanges "node list" "node list" "node list"
  | AnimationFrame
  | HeadObserved
  | DocumentMutation "(node \<times> element) list" node "node list" "node list option" "node list"

definition dispatchVisibilityChange :: "env \<Rightarrow> state \<Rightarrow> state" where
  "dispatchVisibilityChange E s =
     fold (\<lambda>l s1. if l \<in> set (visibilityListeners s1) then stateOf (visibilityListener E s1) else s1)
       (visibilityListeners s) s"

fun dispatch :: "env \<Rightarrow> event \<Rightarrow> state \<Rightarrow> state" where
  "dispatch E (CreateOrUpdateDynamicTheme config dynamicThemeFixes iframe) s =
     stateOf (createOrUpdateDynamicTheme E config dynamicThemeFixes iframe s)"
| "dispatch E RemoveDynamicTheme s = removeDynamicTheme s"
| "dispatch E CleanDynamicThemeCache s = cleanDynamicThemeCache s"
| "dispatch E (LoadingStart token) s = stateOf (loadingStart E token s)"
| "dispatch E (LoadingEnd token) s = stateOf (loadingEnd token s)"
| "dispatch E (Update manager) s = update E manager s"
| "dispatch E (ReadyStateChange r) s =
     (if readyStateListener s then stateOf (onReadyStateChange (s\<lparr>readyState := r\<rparr>))
      else s\<lparr>readyState := r\<rparr>)"
| "dispatch E (VisibilityChange h) s = dispatchVisibilityChange E (s\<lparr>hidden := h\<rparr>)"
| "dispatch E (StyleChanges created updated removed) s =
     (if styleChangeWatcher s then stateOf (styleChangesCallback E created updated removed s)
      else s)"
| "dispatch E AnimationFrame s = stateOf (animationFrame s)"
| "dispatch E HeadObserved s =
     ((\<lambda>s1. stateOf (headObserverCallback E s1)) ^^ headObservers s) s"
| "dispatch E (DocumentMutation written fresh before children after) s =
     s\<lparr>elems := fold (\<lambda>(n, e) st. st(n := e)) written (elems s), nextNode := fresh,
       preHead := before, headChildren := children, postHead := after\<rparr>"

text \<open>A run: each event comes with the answers the collaborators give at that time.\<close>

fun run :: "(env \<times> event) list \<Rightarrow> state \<Rightarrow> state" where
  "run [] s = s"
| "run ((E, ev) # evs) s = run evs (dispatch E ev s)"

text \<open>The module-level containers, which no document operation touches.\<close>

definition moduleView :: "state \<Rightarrow> (node \<times> styleManager) list \<times> nat \<times> vars \<times> nat list" where
  "moduleView s = (styleManagers s, loadingStylesCounter s, variables s, loadingStyles s)"

definition examplePage :: state where
  "examplePage =
     initialState\<lparr>elems := (\<lambda>n. blankElement)
                    (0 := \<lparr>tagName = ''style'', classList = [], media = [],
                           textContent = '':root{--bg:#fff}''\<rparr>),
                  nextNode := 1, headChildren := Some [0]\<rparr>"

definition exampleConfig :: filterConfig where
  "exampleConfig = \<lparr>mode = 1, contrast = 100, useFont = False, textStroke = 0\<rparr>"

definition exampleEnvWithVariables :: env where
  "exampleEnvWithVariables = exampleEnv\<lparr>details := (\<lambda>n. Some [(''--bg'', ''#fff'')])\<rparr>"

subsection \<open>Invariants of the module-level containers\<close>

text \<open>The module writes its containers in five ways only: \<open>createManager\<close>,
  \<open>removeManager\<close>, \<open>updateVariables\<close>, and adding a token to, or deleting one from, the
  loading set. A property of the containers that these five keep is kept by every event.\<close>

definition stable :: "((node \<times> styleManager) list \<times> nat \<times> vars \<times> nat list \<Rightarrow> bool) \<Rightarrow> bool" where
  "stable Q =
     (\<forall>s. Q (moduleView s) \<longrightarrow>
        (\<forall>n. Q (moduleView (snd (createManager n s)))) \<and>
        (\<forall>n. Q (moduleView (removeManager n s))) \<and>
        (\<forall>E newVars. Q (moduleView (updateVariables E newVars s))) \<and>
        (\<forall>t. Q (moduleView (s\<lparr>loadingStyles := List.insert t (loadingStyles s)\<rparr>))) \<and>
        (\<forall>t. Q (moduleView (s\<lparr>loadingStyles := removeAll t (loadingStyles s)\<rparr>))))"

subsection \<open>The registry and its tokens\<close>

text \<open>What the registry is meant to satisfy: one entry per node, the manager of a node is
  the one made for it, no two managers close over the same token, and every token was
  minted by the counter.\<close>

definition registryOkView :: "(node \<times> styleManager) list \<times> nat \<times> vars \<times> nat list \<Rightarrow> bool" where
  "registryOkView v =
     (case v of (managers, counter, table, loading) \<Rightarrow>
        distinct (map fst managers) \<and>
        distinct (map (\<lambda>(n, m). loadingStyleId m) managers) \<and>
        (\<forall>(n, m) \<in> set managers. managedElement m = n \<and> 0 < loadingStyleId m \<and> loadingStyleId m \<le> counter))"

definition registryOk :: "state \<Rightarrow> bool" where
  "registryOk s = registryOkView (moduleView s)"

definition counterAtLeast :: "nat \<Rightarrow> (node \<times> styleManager) list \<times> nat \<times> vars \<times> nat list \<Rightarrow> bool" where
  "counterAtLeast c v = (case v of (managers, counter, table, loading) \<Rightarrow> c \<le> counter)"

definition pageClearsHead :: event where
  "pageClearsHead = DocumentMutation [] 7 [] (Some []) []"

subsection \<open>The sentinel styles under the head\<close>

definition sentinelClasses :: "string list" where
  "sentinelClasses =
     [''darkreader--fallback'', ''darkreader--user-agent'', ''darkreader--text'',
      ''darkreader--invert'', ''darkreader--inline'', ''darkreader--override'']"

definition sentinelOf :: "(node \<Rightarrow> element) \<Rightarrow> node \<Rightarrow> string list" where
  "sentinelOf st n = filter (\<lambda>c. hasClass st c n) sentinelClasses"

text \<open>The sentinel classes met when walking the children of the head in order.\<close>

definition sentinelOrder :: "state \<Rightarrow> string list" where
  "sentinelOrder s =
     (case headChildren s of None \<Rightarrow> [] | Some cs \<Rightarrow> concat (map (sentinelOf (elems s)) cs))"

text \<open>A head as a browser and this module leave it: the children are distinct nodes that
  exist, no child carries two sentinel classes, and no sentinel class is carried by two
  children.\<close>

definition headOk :: "state \<Rightarrow> bool" where
  "headOk s =
     (case headChildren s of
        None \<Rightarrow> False
      | Some cs \<Rightarrow>
          distinct cs \<and> (\<forall>n \<in> set cs. n < nextNode s) \<and>
          (\<forall>n \<in> set cs. \<forall>c \<in> set sentinelClasses. \<forall>d \<in> set sentinelClasses.
             hasClass (elems s) c n \<longrightarrow> hasClass (elems s) d n \<longrightarrow> c = d) \<and>
          (\<forall>n \<in> set cs. \<forall>m \<in> set cs. \<forall>c \<in> set sentinelClasses.
             hasClass (elems s) c n \<longrightarrow> hasClass (elems s) c m \<longrightarrow> n = m))"

text \<open>From \<open>s\<close> to \<open>s'\<close> nodes were only added, no class list was changed, and the
  configuration is the same.\<close>

definition extends :: "state \<Rightarrow> state \<Rightarrow> bool" where
  "extends s s' =
     (nextNode s \<le> nextNode s' \<and>
      (\<forall>n < nextNode s. classList (elems s' n) = classList (elems s n)) \<and>
      filterConfig s' = filterConfig s)"

text \<open>The document of \<open>s'\<close> is that of \<open>s\<close> up to the text of its elements.\<close>

definition sameDocument :: "state \<Rightarrow> state \<Rightarrow> bool" where
  "sameDocument s s' =
     (preHead s' = preHead s \<and> headChildren s' = headChildren s \<and> postHead s' = postHead s \<and>
      nextNode s' = nextNode s \<and>
      (\<forall>n. tagName (elems s' n) = tagName (elems s n) \<and>
           classList (elems s' n) = classList (elems s n) \<and>
           media (elems s' n) = media (elems s n)))"



subsection \<open>The variable table\<close>

lemma substituteEntries_length:
  "length (substituteEntries rep seen todo) = length seen + length todo"
  by (induction todo arbitrary: seen) auto

lemma substituteEntries_keys:
  "map fst (substituteEntries rep seen todo) = map fst seen @ map fst todo"
  by (induction todo arbitrary: seen) auto

lemma substituteEntries_done:
  "take (length seen) (substituteEntries rep seen todo) = seen"
proof (induction todo arbitrary: seen)
  case Nil
  then show ?case by simp
next
  case (Cons e todo)
  obtain k v where e: "e = (k, v)" by (cases e)
  let ?d = "seen @ [(k, rep v (seen @ (k, v) # todo))]"
  have "take (length ?d) (substituteEntries rep ?d todo) = ?d" by (rule Cons.IH)
  then have "take (length seen) (take (length ?d) (substituteEntries rep ?d todo)) = take (length seen) ?d"
    by simp
  then show ?case by (simp add: e min_def)
qed

lemma substituteEntries_entry:
  "length seen \<le> i \<Longrightarrow> i < length seen + length todo \<Longrightarrow>
   snd (substituteEntries rep seen todo ! i) =
     rep (snd ((seen @ todo) ! i)) (take i (substituteEntries rep seen todo) @ drop i (seen @ todo))"
proof (induction todo arbitrary: seen)
  case Nil
  then show ?case by simp
next
  case (Cons e todo)
  obtain k v where e: "e = (k, v)" by (cases e)
  let ?d = "seen @ [(k, rep v (seen @ (k, v) # todo))]"
  let ?r = "substituteEntries rep ?d todo"
  have r: "substituteEntries rep seen (e # todo) = ?r" by (simp add: e)
  have tk: "take (length ?d) ?r = ?d" by (rule substituteEntries_done)
  show ?case
  proof (cases "i = length seen")
    case True
    have "take (length seen) (take (length ?d) ?r) = take (length seen) ?d" using tk by simp
    then have t1: "take i ?r = seen" using True by (simp add: min_def)
    have "?r ! i = (take (length ?d) ?r) ! i" using True by simp
    also have "\<dots> = ?d ! i" by (simp only: tk)
    also have "\<dots> = (k, rep v (seen @ (k, v) # todo))" using True by simp
    finally have t2: "?r ! i = (k, rep v (seen @ (k, v) # todo))" .
    show ?thesis unfolding r using t1 t2 True by (simp add: e nth_append)
  next
    case False
    then have i: "length ?d \<le> i" "i < length ?d + length todo" using Cons.prems by auto
    have "snd (?r ! i) = rep (snd ((?d @ todo) ! i)) (take i ?r @ drop i (?d @ todo))"
      using Cons.IH[OF i] .
    moreover have "(?d @ todo) ! i = (seen @ e # todo) ! i"
      using i False Cons.prems by (simp add: nth_append e)
    moreover have "drop i (?d @ todo) = drop i (seen @ e # todo)"
    proof -
      obtain j where j: "i = Suc (length seen + j)"
        using False Cons.prems(1) by (metis add_Suc_right le_neq_implies_less less_iff_Suc_add)
      show ?thesis by (simp add: e j)
    qed
    ultimately show ?thesis unfolding r by simp
  qed
qed

lemma map_of_fold_update:
  "map_of (fold (\<lambda>(key, v) t. AList.update key v t) newVars table) = map_of table ++ map_of (rev newVars)"
  by (induction newVars arbitrary: table) (auto simp: update_conv' map_add_upd_left fun_eq_iff map_add_def split: option.splits)

text \<open>
  C3. \<open>updateVariables\<close> with no new variables changes nothing. Otherwise it changes the
  table only: every new entry is written into it (a later entry for a key wins, existing
  keys are overwritten), and then every entry is rewritten once, in table order, by one
  call of \<open>replaceCSSVariables\<close> on its merged value with the table of that moment (the
  entries before it already rewritten, the others not yet). With the substitution as the
  spec describes it, one call with \<open>{a: "1px", b: "var(a)"}\<close> leaves \<open>b\<close> at \<open>"1px"\<close>, a
  chain of three leaves its first entry half resolved, and a second call resolves it.
\<close>

theorem updateVariables_single_pass:
  "updateVariables E [] s = s \<and>
   (newVars \<noteq> [] \<longrightarrow>
      (let merged = fold (\<lambda>(key, v) t. AList.update key v t) newVars (variables s);
           result = variables (updateVariables E newVars s)
       in updateVariables E newVars s = s\<lparr>variables := result\<rparr> \<and>
          map_of merged = map_of (variables s) ++ map_of (rev newVars) \<and>
          map fst result = map fst merged \<and>
          (\<forall>i<length merged.
             snd (result ! i) =
               replaceCSSVariables E (snd (merged ! i)) (take i result @ drop i merged)))) \<and>
   variables (updateVariables (E\<lparr>replaceCSSVariables := replaceCSSVariablesSpec\<rparr>)
                [(''a'', ''1px''), (''b'', ''var(a)'')] (s\<lparr>variables := []\<rparr>))
     = [(''a'', ''1px''), (''b'', ''1px'')] \<and>
   variables (updateVariables (E\<lparr>replaceCSSVariables := replaceCSSVariablesSpec\<rparr>)
                [(''a'', ''var(b)''), (''b'', ''var(c)''), (''c'', ''1px'')] (s\<lparr>variables := []\<rparr>))
     = [(''a'', ''var(c)''), (''b'', ''1px''), (''c'', ''1px'')] \<and>
   variables (updateVariables (E\<lparr>replaceCSSVariables := replaceCSSVariablesSpec\<rparr>) [(''c'', ''1px'')]
                (s\<lparr>variables := [(''a'', ''var(c)''), (''b'', ''1px''), (''c'', ''1px'')]\<rparr>))
     = [(''a'', ''1px''), (''b'', ''1px''), (''c'', ''1px'')]"
proof -
  have empty: "updateVariables E [] s = s"
    by (simp add: updateVariables_def updateVariablesTable_def)
  have pass: "newVars \<noteq> [] \<longrightarrow>
      (let merged = fold (\<lambda>(key, v) t. AList.update key v t) newVars (variables s);
           result = variables (updateVariables E newVars s)
       in updateVariables E newVars s = s\<lparr>variables := result\<rparr> \<and>
          map_of merged = map_of (variables s) ++ map_of (rev newVars) \<and>
          map fst result = map fst merged \<and>
          (\<forall>i<length merged.
             snd (result ! i) =
               replaceCSSVariables E (snd (merged ! i)) (take i result @ drop i merged)))"
    using substituteEntries_entry[of "[]" _ _ "replaceCSSVariables E"]
    by (simp add: Let_def updateVariables_def updateVariablesTable_def map_of_fold_update
        substituteEntries_keys)
  have ex1: "variables (updateVariables (E\<lparr>replaceCSSVariables := replaceCSSVariablesSpec\<rparr>)
                [(''a'', ''1px''), (''b'', ''var(a)'')] (s\<lparr>variables := []\<rparr>))
     = [(''a'', ''1px''), (''b'', ''1px'')]"
    by (simp add: updateVariables_def updateVariablesTable_def variableReference_def)
  have ex2: "variables (updateVariables (E\<lparr>replaceCSSVariables := replaceCSSVariablesSpec\<rparr>)
                [(''a'', ''var(b)''), (''b'', ''var(c)''), (''c'', ''1px'')] (s\<lparr>variables := []\<rparr>))
     = [(''a'', ''var(c)''), (''b'', ''1px''), (''c'', ''1px'')]"
    by (simp add: updateVariables_def updateVariablesTable_def variableReference_def)
  have ex3: "variables (updateVariables (E\<lparr>replaceCSSVariables := replaceCSSVariablesSpec\<rparr>) [(''c'', ''1px'')]
                (s\<lparr>variables := [(''a'', ''var(c)''), (''b'', ''1px''), (''c'', ''1px'')]\<rparr>))
     = [(''a'', ''1px''), (''b'', ''1px''), (''c'', ''1px'')]"
    by (simp add: updateVariables_def updateVariablesTable_def variableReference_def)
  from empty pass ex1 ex2 ex3 show ?thesis by blast
qed

theorem updateVariables_single_pass_witness:
  "[(''a'', ''1px''), (''b'', ''var(a)'')] \<noteq> [] \<and>
   updateVariables exampleEnv [(''a'', ''1px''), (''b'', ''var(a)'')] initialState =
     initialState\<lparr>variables := [(''a'', ''1px''), (''b'', ''1px'')]\<rparr> \<and>
   updateVariables exampleEnv [] initialState = initialState"
  using updateVariables_single_pass[of exampleEnv initialState "[(''a'', ''1px''), (''b'', ''var(a)'')]"]
  by (simp add: Let_def exampleEnv_def initialState_def updateVariables_def
      updateVariablesTable_def variableReference_def)

subsection \<open>What the document operations leave alone\<close>

lemma stateOf_andThen:
  "stateOf (andThen r f) = (case r of Ok x s \<Rightarrow> stateOf (f x s) | Threw e s \<Rightarrow> s)"
  by (cases r) (simp_all add: andThen_def)

lemma view_andThen:
  "moduleView (stateOf r) = moduleView s \<Longrightarrow>
   (\<And>x s1. moduleView (stateOf (f x s1)) = moduleView s1) \<Longrightarrow>
   moduleView (stateOf (andThen r f)) = moduleView s"
  by (cases r) (simp_all add: andThen_def)

lemma view_Ok: "moduleView s1 = moduleView s \<Longrightarrow> moduleView (stateOf (Ok x s1)) = moduleView s"
  by simp

lemma view_setTextContent: "moduleView (setTextContent n t s) = moduleView s"
  by (simp add: moduleView_def setTextContent_def)

lemma view_detach: "moduleView (detach n s) = moduleView s"
  by (simp add: moduleView_def detach_def)

lemma view_removeNode: "moduleView (removeNode n s) = moduleView s"
  by (simp add: removeNode_def view_detach split: option.splits)

lemma view_setupStylePositionWatcher: "moduleView (setupStylePositionWatcher n a s) = moduleView s"
  by (simp add: moduleView_def setupStylePositionWatcher_def Let_def split: option.splits)

lemma view_createOrUpdateStyle: "moduleView (stateOf (createOrUpdateStyle c s)) = moduleView s"
  by (simp add: moduleView_def createOrUpdateStyle_def split: option.splits)

lemma view_headInsertBefore: "moduleView (stateOf (headInsertBefore n c s)) = moduleView s"
  by (simp add: moduleView_def headInsertBefore_def detach_def split: option.splits)

lemma view_cleanFallbackStyle: "moduleView (stateOf (cleanFallbackStyle s)) = moduleView s"
  by (simp add: cleanFallbackStyle_def view_setTextContent split: option.splits)

lemmas view_rules = view_andThen view_Ok view_createOrUpdateStyle view_headInsertBefore
  view_setTextContent view_setupStylePositionWatcher view_detach

lemma view_staticFallback: "moduleView (stateOf (staticFallback E s)) = moduleView s"
  unfolding staticFallback_def by (intro view_rules trans[OF view_setupStylePositionWatcher] trans[OF view_setTextContent] refl)

lemma view_staticUserAgent: "moduleView (stateOf (staticUserAgent E fb s)) = moduleView s"
  unfolding staticUserAgent_def
  by (intro view_rules trans[OF view_setupStylePositionWatcher] trans[OF view_setTextContent] refl)

lemma view_staticText: "moduleView (stateOf (staticText E fb s)) = moduleView s"
  unfolding staticText_def
  by (intro view_rules) (simp add: view_setupStylePositionWatcher view_setTextContent split: option.splits)

lemma view_staticInvert: "moduleView (stateOf (staticInvert E t s)) = moduleView s"
  unfolding staticInvert_def
  by (intro view_rules)
     (simp add: view_setupStylePositionWatcher view_setTextContent split: option.splits list.splits)

lemma view_staticInline: "moduleView (stateOf (staticInline E iv s)) = moduleView s"
  unfolding staticInline_def
  by (intro view_rules trans[OF view_setupStylePositionWatcher] trans[OF view_setTextContent] refl)

lemma view_staticOverride: "moduleView (stateOf (staticOverride E s)) = moduleView s"
  unfolding staticOverride_def headAppendChild_def
  by (intro view_rules trans[OF view_setupStylePositionWatcher] trans[OF view_setTextContent] refl)

lemma view_createStaticStyleOverrides:
  "moduleView (stateOf (createStaticStyleOverrides E s)) = moduleView s"
  unfolding createStaticStyleOverrides_def
  by (intro view_andThen view_staticFallback view_staticUserAgent view_staticText
      view_staticInvert view_staticInline view_staticOverride)

subsection \<open>The names of the variable table only grow\<close>

definition namesGrow :: "state \<Rightarrow> state \<Rightarrow> bool" where
  "namesGrow s s' = (fst ` set (variables s) \<subseteq> fst ` set (variables s'))"

lemma namesGrow_refl: "namesGrow s s"
  by (simp add: namesGrow_def)

lemma namesGrow_trans: "namesGrow s s1 \<Longrightarrow> namesGrow s1 s2 \<Longrightarrow> namesGrow s s2"
  by (auto simp: namesGrow_def)

lemma namesGrow_same: "variables s' = variables s \<Longrightarrow> namesGrow s s'"
  by (simp add: namesGrow_def)

lemma namesGrow_view: "moduleView s' = moduleView s \<Longrightarrow> namesGrow s s'"
  by (simp add: namesGrow_def moduleView_def)

lemma namesGrow_andThen:
  "namesGrow s (stateOf r) \<Longrightarrow> (\<And>x s1. namesGrow s1 (stateOf (f x s1))) \<Longrightarrow>
   namesGrow s (stateOf (andThen r f))"
  by (cases r) (auto simp: andThen_def intro: namesGrow_trans)

lemma fold_update_names:
  "fst ` set table \<subseteq> fst ` set (fold (\<lambda>(key, v) t. AList.update key v t) newVars table)"
proof (induction newVars arbitrary: table)
  case Nil
  then show ?case by simp
next
  case (Cons e newVars)
  obtain k v where e: "e = (k, v)" by (cases e)
  have "fst ` set table \<subseteq> fst ` set (AList.update k v table)"
    by (auto simp: dom_update)
  also have "\<dots> \<subseteq> fst ` set (fold (\<lambda>(key, v) t. AList.update key v t) newVars (AList.update k v table))"
    by (rule Cons.IH)
  finally show ?case by (simp add: e)
qed

lemma updateVariablesTable_names:
  "fst ` set table \<subseteq> fst ` set (updateVariablesTable rep newVars table)"
proof -
  have "set (map fst (substituteEntries rep [] t)) = set (map fst t)" for t
    by (simp add: substituteEntries_keys)
  then have "fst ` set (substituteEntries rep [] t) = fst ` set t" for t
    by simp
  then show ?thesis
    using fold_update_names[of table newVars] by (simp add: updateVariablesTable_def)
qed

lemma namesGrow_updateVariables: "namesGrow s (updateVariables E newVars s)"
  by (simp add: namesGrow_def updateVariables_def updateVariablesTable_names)

lemma namesGrow_fold_updateVariables: "namesGrow s (fold (updateVariables E) vss s)"
  by (induction vss arbitrary: s) (auto intro: namesGrow_refl namesGrow_trans namesGrow_updateVariables)

lemma snd_createManagers:
  "snd (createManagers ns s) = fold (\<lambda>n s1. snd (createManager n s1)) ns s"
  by (induction ns arbitrary: s) (simp_all add: split_beta Let_def)

lemma fst_createManagers_Cons:
  "fst (createManagers (n # ns) s) =
     fst (createManager n s) # fst (createManagers ns (snd (createManager n s)))"
  by (simp add: split_beta Let_def)

lemma variables_createManager: "variables (snd (createManager n s)) = variables s"
  by (simp add: createManager_def Let_def)

lemma variables_createManagers: "variables (snd (createManagers ns s)) = variables s"
  unfolding snd_createManagers
  by (induction ns arbitrary: s) (simp_all add: variables_createManager)

lemma variables_removeManager: "variables (removeManager n s) = variables s"
  by (simp add: removeManager_def split: option.splits)

lemma variables_fold_removeManager: "variables (fold removeManager ns s) = variables s"
  by (induction ns arbitrary: s) (simp_all add: variables_removeManager)

lemma variables_fold_removeNode: "variables (fold (\<lambda>n. removeNode (Some n)) ns s) = variables s"
  by (induction ns arbitrary: s) (simp_all add: removeNode_def detach_def)

lemma variables_cleanFallbackStyle: "variables (stateOf (cleanFallbackStyle s)) = variables s"
  using view_cleanFallbackStyle[of s] by (simp add: moduleView_def)

lemma namesGrow_update: "namesGrow s (update E m s)"
  by (auto simp: update_def renderManagers_def throttledRenderAllStyles_def namesGrow_def
      updateVariables_def updateVariablesTable_names split: option.splits)

lemma namesGrow_createDynamicStyleOverrides: "namesGrow s (stateOf (createDynamicStyleOverrides E s))"
proof -
  let ?s0 = "cancelRendering s"
  let ?styles = "filter (\<lambda>style. \<not> hasManager style ?s0 \<and> shouldManageStyle E (elems ?s0 style))
                     (documentQuerySelectorAll (matchesStyleSelector E) ?s0)"
  obtain made s1 where cm: "createManagers ?styles ?s0 = (made, s1)" by (cases "createManagers ?styles ?s0")
  have v1: "variables s1 = variables s"
    using variables_createManagers[of ?styles ?s0] cm by (simp add: cancelRendering_def)
  show ?thesis
  proof (cases "those made")
    case None
    then show ?thesis using cm v1 by (simp add: createDynamicStyleOverrides_def Let_def namesGrow_def)
  next
    case (Some ms)
    have g: "namesGrow s1 (fold (updateVariables E) (collectVariables E ms) s1)"
      by (rule namesGrow_fold_updateVariables)
    show ?thesis
      using cm v1 Some g variables_cleanFallbackStyle[of "renderManagers (map fst (styleManagers s1)) s1"]
      by (cases "cleanFallbackStyle (renderManagers (map fst (styleManagers s1)) s1)")
         (auto simp: createDynamicStyleOverrides_def Let_def namesGrow_def andThen_def
          renderManagers_def throttledRenderAllStyles_def overrideInlineStyles_def watchManagers_def)
  qed
qed

lemma namesGrow_styleChangesCallback:
  "namesGrow s (stateOf (styleChangesCallback E created updated removed s))"
proof -
  let ?s1 = "fold removeManager (filter (\<lambda>style. style \<notin> set (filter (\<lambda>style. style \<in> set created) removed)) removed) s"
  let ?styles = "filter (\<lambda>style. \<not> hasManager style ?s1) (uniqueInOrder (created @ updated))"
  obtain made s2 where cm: "createManagers ?styles ?s1 = (made, s2)" by (cases "createManagers ?styles ?s1")
  have v1: "variables s2 = variables s"
    using variables_createManagers[of ?styles ?s1] cm by (simp add: variables_fold_removeManager)
  show ?thesis
  proof (cases "those made")
    case None
    then show ?thesis using cm v1 by (simp add: styleChangesCallback_def Let_def namesGrow_def)
  next
    case (Some ms)
    have g: "namesGrow s2 (fold (updateVariables E) (collectVariables E ms) s2)"
      by (rule namesGrow_fold_updateVariables)
    show ?thesis
      using cm v1 Some g
      by (auto simp: styleChangesCallback_def Let_def namesGrow_def
          renderManagers_def throttledRenderAllStyles_def watchManagers_def)
  qed
qed

lemma variables_loadingStart: "variables (stateOf (loadingStart E t s)) = variables s"
  by (simp add: loadingStart_def Let_def setTextContent_def split: option.splits)

lemma variables_loadingEnd: "variables (stateOf (loadingEnd t s)) = variables s"
  by (simp add: loadingEnd_def Let_def variables_cleanFallbackStyle)

lemma variables_onReadyStateChange: "variables (stateOf (onReadyStateChange s)) = variables s"
  by (simp add: onReadyStateChange_def Let_def variables_cleanFallbackStyle)

lemma variables_animationFrame: "variables (stateOf (animationFrame s)) = variables s"
  by (simp add: animationFrame_def renderAllStyles_def Let_def renderManagers_def
      variables_cleanFallbackStyle split: option.splits)

lemma variables_cleanDynamicThemeCache: "variables (cleanDynamicThemeCache s) = variables s"
  by (simp add: cleanDynamicThemeCache_def cleanModificationCache_def stopWatchingForUpdates_def
      stopStylePositionWatchers_def cancelRendering_def stopWatchingForDocumentVisibility_def)

lemma variables_removeNode: "variables (removeNode n s) = variables s"
  using view_removeNode[of n s] by (simp add: moduleView_def)

lemma variables_removeHeadSentinel: "variables (removeHeadSentinel c s) = variables s"
  by (simp add: removeHeadSentinel_def variables_removeNode)

lemma variables_removeDynamicTheme: "variables (removeDynamicTheme s) = variables s"
  by (simp only: removeDynamicTheme_def Let_def variables_fold_removeNode
      variables_fold_removeManager variables_removeHeadSentinel variables_removeNode
      variables_cleanDynamicThemeCache if_distrib[of variables] if_cancel)

lemma namesGrow_visibilityListener: "namesGrow s (stateOf (visibilityListener E s))"
proof -
  have "namesGrow (stopWatchingForDocumentVisibility s)
          (stateOf (createDynamicStyleOverrides E (stopWatchingForDocumentVisibility s)))"
    by (rule namesGrow_createDynamicStyleOverrides)
  then have "namesGrow s (stateOf (createDynamicStyleOverrides E (stopWatchingForDocumentVisibility s)))"
    by (simp add: namesGrow_def stopWatchingForDocumentVisibility_def)
  then have "namesGrow s (stateOf (andThen (createDynamicStyleOverrides E (stopWatchingForDocumentVisibility s))
          (\<lambda>_ s1. Ok () (watchForUpdates s1))))"
    by (rule namesGrow_andThen) (simp add: namesGrow_def watchForUpdates_def)
  then show ?thesis
    by (simp add: visibilityListener_def namesGrow_refl)
qed

lemma namesGrow_dispatchVisibilityChange: "namesGrow s (dispatchVisibilityChange E s)"
proof -
  have "namesGrow s (fold (\<lambda>l s1. if l \<in> set (visibilityListeners s1)
                               then stateOf (visibilityListener E s1) else s1) ls s)" for ls
    by (induction ls arbitrary: s)
       (auto intro: namesGrow_refl namesGrow_trans namesGrow_visibilityListener)
  then show ?thesis by (simp add: dispatchVisibilityChange_def)
qed

lemma namesGrow_createThemeAndWatchForUpdates:
  "namesGrow s (stateOf (createThemeAndWatchForUpdates E s))"
  unfolding createThemeAndWatchForUpdates_def
proof (rule namesGrow_andThen)
  show "namesGrow s (stateOf (createStaticStyleOverrides E s))"
    by (rule namesGrow_view[OF view_createStaticStyleOverrides])
next
  fix x :: unit and s1
  have "namesGrow s1 (stateOf (andThen (createDynamicStyleOverrides E s1) (\<lambda>_ s2. Ok () (watchForUpdates s2))))"
    by (rule namesGrow_andThen[OF namesGrow_createDynamicStyleOverrides])
       (simp add: namesGrow_def watchForUpdates_def)
  then show "namesGrow s1 (stateOf (if hidden s1 then Ok () (watchForDocumentVisibility s1)
       else andThen (createDynamicStyleOverrides E s1) (\<lambda>_ s2. Ok () (watchForUpdates s2))))"
    by (simp add: namesGrow_def watchForDocumentVisibility_def Let_def)
qed

lemma namesGrow_createOrUpdateDynamicTheme:
  "namesGrow s (stateOf (createOrUpdateDynamicTheme E config fx iframe s))"
proof -
  let ?s0 = "s\<lparr>filterConfig := Some config, themeFixes := fx, isIFrame := Some iframe\<rparr>"
  have a: "namesGrow s ?s0" by (simp add: namesGrow_def)
  have b: "namesGrow ?s0 (stateOf (createThemeAndWatchForUpdates E ?s0))"
    by (rule namesGrow_createThemeAndWatchForUpdates)
  show ?thesis
  proof (cases "headChildren s")
    case None
    then have "createOrUpdateStyle ''darkreader--fallback'' ?s0 = Threw TypeError ?s0"
      by (simp add: createOrUpdateStyle_def)
    with None show ?thesis
      by (simp add: createOrUpdateDynamicTheme_def Let_def andThen_def namesGrow_def)
  next
    case (Some cs)
    then show ?thesis
      using namesGrow_trans[OF a b] by (simp add: createOrUpdateDynamicTheme_def Let_def)
  qed
qed

lemma namesGrow_headObserverCallback: "namesGrow s (stateOf (headObserverCallback E s))"
proof -
  have "namesGrow (s\<lparr>headObservers := headObservers s - 1\<rparr>)
          (stateOf (createThemeAndWatchForUpdates E (s\<lparr>headObservers := headObservers s - 1\<rparr>)))"
    by (rule namesGrow_createThemeAndWatchForUpdates)
  then show ?thesis
    by (simp add: headObserverCallback_def namesGrow_def)
qed

lemma namesGrow_funpow:
  "(\<And>s. namesGrow s (f s)) \<Longrightarrow> namesGrow s ((f ^^ n) s)"
  by (induction n) (auto intro: namesGrow_refl namesGrow_trans)

lemma namesGrow_dispatch: "namesGrow s (dispatch E ev s)"
proof (cases ev)
  case (CreateOrUpdateDynamicTheme config fx iframe)
  then show ?thesis by (simp add: namesGrow_createOrUpdateDynamicTheme)
next
  case RemoveDynamicTheme
  then show ?thesis by (simp add: namesGrow_same variables_removeDynamicTheme)
next
  case CleanDynamicThemeCache
  then show ?thesis by (simp add: namesGrow_same variables_cleanDynamicThemeCache)
next
  case (LoadingStart t)
  then show ?thesis by (simp add: namesGrow_same variables_loadingStart)
next
  case (LoadingEnd t)
  then show ?thesis by (simp add: namesGrow_same variables_loadingEnd)
next
  case (Update m)
  then show ?thesis by (simp add: namesGrow_update)
next
  case (ReadyStateChange r)
  then show ?thesis
    using variables_onReadyStateChange[of "s\<lparr>readyState := r\<rparr>"]
    by (simp add: namesGrow_def)
next
  case (VisibilityChange h)
  have "namesGrow (s\<lparr>hidden := h\<rparr>) (dispatchVisibilityChange E (s\<lparr>hidden := h\<rparr>))"
    by (rule namesGrow_dispatchVisibilityChange)
  then show ?thesis using VisibilityChange by (simp add: namesGrow_def)
next
  case (StyleChanges created updated removed)
  then show ?thesis by (simp add: namesGrow_styleChangesCallback namesGrow_refl)
next
  case AnimationFrame
  then show ?thesis by (simp add: namesGrow_same variables_animationFrame)
next
  case HeadObserved
  then show ?thesis
    using namesGrow_funpow[of "\<lambda>s1. stateOf (headObserverCallback E s1)" s "headObservers s"]
    by (simp add: namesGrow_headObserverCallback)
next
  case (DocumentMutation st fresh before children after)
  then show ?thesis by (simp add: namesGrow_def)
qed

lemma namesGrow_run: "namesGrow s (run evs s)"
proof (induction evs arbitrary: s)
  case Nil
  then show ?case by (simp add: namesGrow_refl)
next
  case (Cons p evs)
  obtain E ev where p: "p = (E, ev)" by (cases p)
  show ?case
    using namesGrow_trans[OF namesGrow_dispatch Cons.IH] by (simp add: p)
qed

lemmas eval_defs = examplePage_def initialState_def exampleEnv_def exampleConfig_def blankElement_def
   exampleEnvWithVariables_def
   createOrUpdateDynamicTheme_def createThemeAndWatchForUpdates_def createStaticStyleOverrides_def
   staticFallback_def staticUserAgent_def staticText_def staticInvert_def staticInline_def staticOverride_def
   createOrUpdateStyle_def headInsertBefore_def headAppendChild_def headFirstChild_def nextSibling_def firstChild_def
   querySelectorIn_def hasClass_def detach_def setTextContent_def setupStylePositionWatcher_def andThen_def Let_def
   createDynamicStyleOverrides_def cancelRendering_def documentQuerySelectorAll_def documentNodes_def
   hasManager_def createManager_def collectVariables_def List.map_filter_def throttledRenderAllStyles_def
   updateVariables_def updateVariablesTable_def watchManagers_def overrideInlineStyles_def watchForUpdates_def
   cleanDynamicThemeCache_def cleanModificationCache_def stopWatchingForUpdates_def stopStylePositionWatchers_def
   stopWatchingForDocumentVisibility_def variableReference_def renderManagers_def cleanFallbackStyle_def

text \<open>
  C9, as stated, fails: \<open>cleanDynamicThemeCache\<close> does not reset the variable table. After the
  theme is established on a page whose one style sheet declares \<open>--bg\<close>, the cache clean
  leaves the table with that entry.
\<close>

theorem cleanDynamicThemeCache_keeps_variables_counterexample:
  "variables (cleanDynamicThemeCache
     (run [(exampleEnvWithVariables, CreateOrUpdateDynamicTheme exampleConfig None False)] examplePage))
   \<noteq> []"
  by (simp add: eval_defs)

text \<open>
  C9, amended. The names of the variable table only grow: \<open>updateVariables\<close> adds or
  overwrites entries and deletes none, and no run of events of the module removes a name.
  The table is never reset: \<open>cleanDynamicThemeCache\<close> leaves it as it is, and it leaves the
  document, with the sentinel elements inserted in it, as it is.
\<close>

theorem variables_only_grow:
  "fst ` set (variables s) \<subseteq> fst ` set (variables (updateVariables E newVars s)) \<and>
   fst ` set (variables s) \<subseteq> fst ` set (variables (run evs s)) \<and>
   variables (cleanDynamicThemeCache s) = variables s \<and>
   elems (cleanDynamicThemeCache s) = elems s \<and>
   preHead (cleanDynamicThemeCache s) = preHead s \<and>
   headChildren (cleanDynamicThemeCache s) = headChildren s \<and>
   postHead (cleanDynamicThemeCache s) = postHead s"
proof -
  have a: "fst ` set (variables s) \<subseteq> fst ` set (variables (updateVariables E newVars s))"
    using namesGrow_updateVariables[of s E newVars] by (simp add: namesGrow_def)
  have b: "fst ` set (variables s) \<subseteq> fst ` set (variables (run evs s))"
    using namesGrow_run[of s evs] by (simp add: namesGrow_def)
  have c: "elems (cleanDynamicThemeCache s) = elems s \<and>
   preHead (cleanDynamicThemeCache s) = preHead s \<and>
   headChildren (cleanDynamicThemeCache s) = headChildren s \<and>
   postHead (cleanDynamicThemeCache s) = postHead s"
    by (simp add: cleanDynamicThemeCache_def cleanModificationCache_def stopWatchingForUpdates_def
      stopStylePositionWatchers_def cancelRendering_def stopWatchingForDocumentVisibility_def)
  from a b c variables_cleanDynamicThemeCache[of s] show ?thesis by blast
qed

theorem variables_only_grow_witness:
  "variables (run [(exampleEnvWithVariables, CreateOrUpdateDynamicTheme exampleConfig None False),
                   (exampleEnvWithVariables, CleanDynamicThemeCache),
                   (exampleEnvWithVariables, RemoveDynamicTheme)] examplePage)
     = [(''--bg'', ''#fff'')] \<and>
   fst ` set (variables examplePage) \<subseteq>
     fst ` set (variables (run [(exampleEnvWithVariables, CreateOrUpdateDynamicTheme exampleConfig None False),
                   (exampleEnvWithVariables, CleanDynamicThemeCache),
                   (exampleEnvWithVariables, RemoveDynamicTheme)] examplePage))"
  using variables_only_grow[of examplePage exampleEnvWithVariables "[]"
      "[(exampleEnvWithVariables, CreateOrUpdateDynamicTheme exampleConfig None False),
        (exampleEnvWithVariables, CleanDynamicThemeCache),
        (exampleEnvWithVariables, RemoveDynamicTheme)]"]
  by (simp add: variables_removeDynamicTheme variables_cleanDynamicThemeCache eval_defs)

subsection \<open>Every event keeps a stable property of the containers\<close>

lemma stable_createManager: "stable Q \<Longrightarrow> Q (moduleView s) \<Longrightarrow> Q (moduleView (snd (createManager n s)))"
  by (simp add: stable_def)

lemma stable_removeManager: "stable Q \<Longrightarrow> Q (moduleView s) \<Longrightarrow> Q (moduleView (removeManager n s))"
  by (simp add: stable_def)

lemma stable_updateVariables: "stable Q \<Longrightarrow> Q (moduleView s) \<Longrightarrow> Q (moduleView (updateVariables E v s))"
  by (simp add: stable_def)

lemma stable_insert:
  "stable Q \<Longrightarrow> Q (moduleView s) \<Longrightarrow> Q (moduleView (s\<lparr>loadingStyles := List.insert t (loadingStyles s)\<rparr>))"
  by (simp add: stable_def)

lemma stable_delete:
  "stable Q \<Longrightarrow> Q (moduleView s) \<Longrightarrow> Q (moduleView (s\<lparr>loadingStyles := removeAll t (loadingStyles s)\<rparr>))"
  by (simp add: stable_def)

lemma stable_andThen:
  "Q (moduleView (stateOf r)) \<Longrightarrow>
   (\<And>x s1. Q (moduleView s1) \<Longrightarrow> Q (moduleView (stateOf (f x s1)))) \<Longrightarrow>
   Q (moduleView (stateOf (andThen r f)))"
  by (cases r) (simp_all add: andThen_def)

lemma stable_createManagers:
  "stable Q \<Longrightarrow> Q (moduleView s) \<Longrightarrow> Q (moduleView (snd (createManagers ns s)))"
  unfolding snd_createManagers
  by (induction ns arbitrary: s) (simp_all add: stable_createManager)

lemma stable_fold_removeManager:
  "stable Q \<Longrightarrow> Q (moduleView s) \<Longrightarrow> Q (moduleView (fold removeManager ns s))"
  by (induction ns arbitrary: s) (simp_all add: stable_removeManager)

lemma stable_fold_updateVariables:
  "stable Q \<Longrightarrow> Q (moduleView s) \<Longrightarrow> Q (moduleView (fold (updateVariables E) vss s))"
  by (induction vss arbitrary: s) (simp_all add: stable_updateVariables)

lemma view_fold_removeNode: "moduleView (fold (\<lambda>n. removeNode (Some n)) ns s) = moduleView s"
  by (induction ns arbitrary: s) (simp_all add: view_removeNode)

lemma view_renderManagers: "moduleView (renderManagers ns s) = moduleView s"
  by (simp add: moduleView_def renderManagers_def)

lemma view_throttledRenderAllStyles: "moduleView (throttledRenderAllStyles cb s) = moduleView s"
  by (simp add: moduleView_def throttledRenderAllStyles_def)

lemma view_cancelRendering: "moduleView (cancelRendering s) = moduleView s"
  by (simp add: moduleView_def cancelRendering_def)

lemma view_watchManagers: "moduleView (watchManagers ms s) = moduleView s"
  by (simp add: moduleView_def watchManagers_def)

lemma view_overrideInlineStyles: "moduleView (overrideInlineStyles s) = moduleView s"
  by (simp add: moduleView_def overrideInlineStyles_def)

lemma view_watchForUpdates: "moduleView (watchForUpdates s) = moduleView s"
  by (simp add: moduleView_def watchForUpdates_def)

lemma view_watchForDocumentVisibility: "moduleView (watchForDocumentVisibility s) = moduleView s"
  by (simp add: moduleView_def watchForDocumentVisibility_def Let_def)

lemma view_stopWatchingForDocumentVisibility:
  "moduleView (stopWatchingForDocumentVisibility s) = moduleView s"
  by (simp add: moduleView_def stopWatchingForDocumentVisibility_def)

lemma view_cleanDynamicThemeCache: "moduleView (cleanDynamicThemeCache s) = moduleView s"
  by (simp add: moduleView_def cleanDynamicThemeCache_def cleanModificationCache_def
      stopWatchingForUpdates_def stopStylePositionWatchers_def cancelRendering_def
      stopWatchingForDocumentVisibility_def)

lemma view_removeHeadSentinel: "moduleView (removeHeadSentinel c s) = moduleView s"
  by (simp add: removeHeadSentinel_def view_removeNode)

lemma view_animationFrame: "moduleView (stateOf (animationFrame s)) = moduleView s"
proof (cases "renderSlot s")
  case None
  then show ?thesis by (simp add: animationFrame_def)
next
  case (Some cb)
  have "moduleView (stateOf (renderAllStyles cb (s\<lparr>renderSlot := None\<rparr>))) = moduleView (s\<lparr>renderSlot := None\<rparr>)"
    by (simp add: renderAllStyles_def Let_def view_cleanFallbackStyle view_renderManagers)
  then show ?thesis using Some by (simp add: animationFrame_def moduleView_def)
qed

lemma view_onReadyStateChange: "moduleView (stateOf (onReadyStateChange s)) = moduleView s"
proof -
  have "moduleView (stateOf (cleanFallbackStyle (s\<lparr>readyStateListener := False\<rparr>))) = moduleView s"
    by (simp add: view_cleanFallbackStyle) (simp add: moduleView_def)
  then show ?thesis by (simp add: onReadyStateChange_def Let_def) (simp add: moduleView_def)
qed

lemma stable_loadingStart:
  assumes "stable Q" "Q (moduleView s)"
  shows "Q (moduleView (stateOf (loadingStart E t s)))"
proof -
  let ?s1 = "s\<lparr>loadingStyles := List.insert t (loadingStyles s)\<rparr>"
  have q: "Q (moduleView ?s1)" using assms by (rule stable_insert)
  then have "Q (moduleView (setTextContent f x ?s1))" for f x
    by (simp add: view_setTextContent)
  with q assms(2) show ?thesis
    by (simp add: loadingStart_def Let_def split: option.splits)
qed

lemma stable_loadingEnd:
  assumes "stable Q" "Q (moduleView s)"
  shows "Q (moduleView (stateOf (loadingEnd t s)))"
proof -
  let ?s1 = "s\<lparr>loadingStyles := removeAll t (loadingStyles s)\<rparr>"
  have q: "Q (moduleView ?s1)" using assms by (rule stable_delete)
  then have c: "Q (moduleView (stateOf (cleanFallbackStyle ?s1)))"
    by (simp add: view_cleanFallbackStyle)
  have "loadingEnd t s = cleanFallbackStyle ?s1 \<or> loadingEnd t s = Ok () ?s1"
    by (simp only: loadingEnd_def Let_def split: if_split) blast
  with q c show ?thesis by auto
qed

lemma stable_update:
  assumes "stable Q" "Q (moduleView s)"
  shows "Q (moduleView (update E m s))"
  using assms stable_updateVariables[OF assms, of E]
  by (simp add: update_def view_renderManagers view_throttledRenderAllStyles split: option.splits)

lemma stable_createDynamicStyleOverrides:
  assumes "stable Q" "Q (moduleView s)"
  shows "Q (moduleView (stateOf (createDynamicStyleOverrides E s)))"
proof -
  let ?s0 = "cancelRendering s"
  let ?styles = "filter (\<lambda>style. \<not> hasManager style ?s0 \<and> shouldManageStyle E (elems ?s0 style))
                     (documentQuerySelectorAll (matchesStyleSelector E) ?s0)"
  obtain made s1 where cm: "createManagers ?styles ?s0 = (made, s1)" by (cases "createManagers ?styles ?s0")
  have "Q (moduleView ?s0)" using assms(2) by (simp add: view_cancelRendering)
  then have q1: "Q (moduleView s1)"
    using stable_createManagers[OF assms(1), of ?s0 ?styles] cm by simp
  show ?thesis
  proof (cases "those made")
    case None
    then show ?thesis using cm q1 by (simp add: createDynamicStyleOverrides_def Let_def)
  next
    case (Some ms)
    have g: "Q (moduleView (fold (updateVariables E) (collectVariables E ms) s1))"
      using assms(1) q1 by (rule stable_fold_updateVariables)
    have c: "Q (moduleView (stateOf (cleanFallbackStyle (renderManagers (map fst (styleManagers s1)) s1))))"
      using q1 by (simp add: view_cleanFallbackStyle view_renderManagers)
    have "Q (moduleView (stateOf (andThen
            (if collectVariables E ms = [] then
               (let s2 = renderManagers (map fst (styleManagers s1)) s1
                in if loadingStyles s2 = [] then cleanFallbackStyle s2 else Ok () s2)
             else Ok () (throttledRenderAllStyles True (fold (updateVariables E) (collectVariables E ms) s1)))
            (\<lambda>_ s3. Ok () (overrideInlineStyles (watchManagers ms s3))))))"
    proof (rule stable_andThen)
      show "Q (moduleView (stateOf
            (if collectVariables E ms = [] then
               (let s2 = renderManagers (map fst (styleManagers s1)) s1
                in if loadingStyles s2 = [] then cleanFallbackStyle s2 else Ok () s2)
             else Ok () (throttledRenderAllStyles True (fold (updateVariables E) (collectVariables E ms) s1)))))"
        using g c q1 by (simp add: Let_def view_renderManagers view_throttledRenderAllStyles)
    next
      fix x :: unit and s3
      assume "Q (moduleView s3)"
      then show "Q (moduleView (stateOf (Ok () (overrideInlineStyles (watchManagers ms s3)))))"
        by (simp add: view_overrideInlineStyles view_watchManagers)
    qed
    then show ?thesis using cm Some by (simp add: createDynamicStyleOverrides_def Let_def)
  qed
qed

lemma stable_styleChangesCallback:
  assumes "stable Q" "Q (moduleView s)"
  shows "Q (moduleView (stateOf (styleChangesCallback E created updated removed s)))"
proof -
  let ?s1 = "fold removeManager (filter (\<lambda>style. style \<notin> set (filter (\<lambda>style. style \<in> set created) removed)) removed) s"
  let ?styles = "filter (\<lambda>style. \<not> hasManager style ?s1) (uniqueInOrder (created @ updated))"
  obtain made s2 where cm: "createManagers ?styles ?s1 = (made, s2)" by (cases "createManagers ?styles ?s1")
  have "Q (moduleView ?s1)" using assms by (rule stable_fold_removeManager)
  then have q2: "Q (moduleView s2)"
    using stable_createManagers[OF assms(1), of ?s1 ?styles] cm by simp
  show ?thesis
  proof (cases "those made")
    case None
    then show ?thesis using cm q2 by (simp add: styleChangesCallback_def Let_def)
  next
    case (Some ms)
    have g: "Q (moduleView (fold (updateVariables E) (collectVariables E ms) s2))"
      using assms(1) q2 by (rule stable_fold_updateVariables)
    show ?thesis
      using cm Some g q2
      by (simp add: styleChangesCallback_def Let_def view_watchManagers view_renderManagers
          view_throttledRenderAllStyles)
  qed
qed

lemma stable_visibilityListener:
  assumes "stable Q" "Q (moduleView s)"
  shows "Q (moduleView (stateOf (visibilityListener E s)))"
proof -
  have "Q (moduleView (stopWatchingForDocumentVisibility s))"
    using assms(2) by (simp add: view_stopWatchingForDocumentVisibility)
  then have "Q (moduleView (stateOf (createDynamicStyleOverrides E (stopWatchingForDocumentVisibility s))))"
    by (rule stable_createDynamicStyleOverrides[OF assms(1)])
  then have "Q (moduleView (stateOf (andThen (createDynamicStyleOverrides E (stopWatchingForDocumentVisibility s))
          (\<lambda>_ s1. Ok () (watchForUpdates s1)))))"
    by (rule stable_andThen) (simp add: view_watchForUpdates)
  then show ?thesis using assms(2) by (simp add: visibilityListener_def)
qed

lemma stable_dispatchVisibilityChange:
  assumes "stable Q" "Q (moduleView s)"
  shows "Q (moduleView (dispatchVisibilityChange E s))"
proof -
  have "Q (moduleView s) \<Longrightarrow> Q (moduleView (fold (\<lambda>l s1. if l \<in> set (visibilityListeners s1)
                               then stateOf (visibilityListener E s1) else s1) ls s))" for ls
    by (induction ls arbitrary: s) (simp_all add: stable_visibilityListener[OF assms(1)])
  then show ?thesis using assms(2) by (simp add: dispatchVisibilityChange_def)
qed

lemma stable_createThemeAndWatchForUpdates:
  assumes "stable Q" "Q (moduleView s)"
  shows "Q (moduleView (stateOf (createThemeAndWatchForUpdates E s)))"
  unfolding createThemeAndWatchForUpdates_def
proof (rule stable_andThen)
  show "Q (moduleView (stateOf (createStaticStyleOverrides E s)))"
    using assms(2) by (simp add: view_createStaticStyleOverrides)
next
  fix x :: unit and s1
  assume q: "Q (moduleView s1)"
  have "Q (moduleView (stateOf (createDynamicStyleOverrides E s1)))"
    using assms(1) q by (rule stable_createDynamicStyleOverrides)
  then have "Q (moduleView (stateOf (andThen (createDynamicStyleOverrides E s1) (\<lambda>_ s2. Ok () (watchForUpdates s2)))))"
    by (rule stable_andThen) (simp add: view_watchForUpdates)
  then show "Q (moduleView (stateOf (if hidden s1 then Ok () (watchForDocumentVisibility s1)
       else andThen (createDynamicStyleOverrides E s1) (\<lambda>_ s2. Ok () (watchForUpdates s2)))))"
    using q by (simp add: view_watchForDocumentVisibility)
qed

lemma stable_createOrUpdateDynamicTheme:
  assumes "stable Q" "Q (moduleView s)"
  shows "Q (moduleView (stateOf (createOrUpdateDynamicTheme E config fx iframe s)))"
proof -
  let ?s0 = "s\<lparr>filterConfig := Some config, themeFixes := fx, isIFrame := Some iframe\<rparr>"
  have a: "Q (moduleView ?s0)" using assms(2) by (simp add: moduleView_def)
  show ?thesis
  proof (cases "headChildren s")
    case None
    then have "createOrUpdateStyle ''darkreader--fallback'' ?s0 = Threw TypeError ?s0"
      by (simp add: createOrUpdateStyle_def)
    with None a show ?thesis
      by (simp add: createOrUpdateDynamicTheme_def Let_def andThen_def) (simp add: moduleView_def)
  next
    case (Some cs)
    then show ?thesis
      using stable_createThemeAndWatchForUpdates[OF assms(1) a]
      by (simp add: createOrUpdateDynamicTheme_def Let_def)
  qed
qed

lemma stable_headObserverCallback:
  assumes "stable Q" "Q (moduleView s)"
  shows "Q (moduleView (stateOf (headObserverCallback E s)))"
proof -
  have "Q (moduleView (s\<lparr>headObservers := headObservers s - 1\<rparr>))"
    using assms(2) by (simp add: moduleView_def)
  then have "Q (moduleView (stateOf (createThemeAndWatchForUpdates E (s\<lparr>headObservers := headObservers s - 1\<rparr>))))"
    by (rule stable_createThemeAndWatchForUpdates[OF assms(1)])
  then show ?thesis using assms(2) by (simp add: headObserverCallback_def)
qed

lemma stable_removeDynamicTheme:
  assumes "stable Q" "Q (moduleView s)"
  shows "Q (moduleView (removeDynamicTheme s))"
proof -
  let ?s1 = "cleanDynamicThemeCache s"
  let ?s2 = "removeNode (documentQuerySelector ''darkreader--fallback'' ?s1) ?s1"
  let ?s3 = "(if headChildren ?s2 \<noteq> None
                then removeHeadSentinel ''darkreader--override''
                       (removeHeadSentinel ''darkreader--inline''
                          (removeHeadSentinel ''darkreader--invert''
                             (removeHeadSentinel ''darkreader--text''
                                (removeHeadSentinel ''darkreader--user-agent'' ?s2))))
                else ?s2)"
  have "moduleView ?s3 = moduleView s"
    by (simp only: view_removeHeadSentinel view_removeNode view_cleanDynamicThemeCache
        if_distrib[of moduleView] if_cancel)
  then have "Q (moduleView ?s3)" using assms(2) by simp
  then have "Q (moduleView (fold removeManager (map fst (styleManagers ?s3)) ?s3))"
    by (rule stable_fold_removeManager[OF assms(1)])
  then show ?thesis
    by (simp only: removeDynamicTheme_def Let_def view_fold_removeNode)
qed

lemma stable_dispatch:
  assumes "stable Q" "Q (moduleView s)"
  shows "Q (moduleView (dispatch E ev s))"
proof (cases ev)
  case (CreateOrUpdateDynamicTheme config fx iframe)
  then show ?thesis using assms by (simp add: stable_createOrUpdateDynamicTheme)
next
  case RemoveDynamicTheme
  then show ?thesis using assms by (simp add: stable_removeDynamicTheme)
next
  case CleanDynamicThemeCache
  then show ?thesis using assms by (simp add: view_cleanDynamicThemeCache)
next
  case (LoadingStart t)
  then show ?thesis using assms by (simp add: stable_loadingStart)
next
  case (LoadingEnd t)
  then show ?thesis using assms by (simp add: stable_loadingEnd)
next
  case (Update m)
  then show ?thesis using assms by (simp add: stable_update)
next
  case (ReadyStateChange r)
  have "moduleView (s\<lparr>readyState := r\<rparr>) = moduleView s" by (simp add: moduleView_def)
  then show ?thesis
    using ReadyStateChange assms(2) view_onReadyStateChange[of "s\<lparr>readyState := r\<rparr>"]
    by simp
next
  case (VisibilityChange h)
  have "Q (moduleView (s\<lparr>hidden := h\<rparr>))" using assms(2) by (simp add: moduleView_def)
  then show ?thesis
    using VisibilityChange stable_dispatchVisibilityChange[OF assms(1)] by simp
next
  case (StyleChanges created updated removed)
  then show ?thesis using assms by (simp add: stable_styleChangesCallback)
next
  case AnimationFrame
  then show ?thesis using assms by (simp add: view_animationFrame)
next
  case HeadObserved
  have "Q (moduleView s) \<Longrightarrow> Q (moduleView (((\<lambda>s1. stateOf (headObserverCallback E s1)) ^^ n) s))" for n
    by (induction n) (simp_all add: stable_headObserverCallback[OF assms(1)])
  then show ?thesis using HeadObserved assms(2) by simp
next
  case (DocumentMutation st fresh before children after)
  then show ?thesis using assms(2) by (simp add: moduleView_def)
qed

lemma stable_run: "stable Q \<Longrightarrow> Q (moduleView s) \<Longrightarrow> Q (moduleView (run evs s))"
proof (induction evs arbitrary: s)
  case Nil
  then show ?case by simp
next
  case (Cons p evs)
  obtain E ev where p: "p = (E, ev)" by (cases p)
  show ?case
    using Cons.IH[OF Cons.prems(1) stable_dispatch[OF Cons.prems, of E ev]] by (simp add: p)
qed

subsection \<open>The registry keeps its shape\<close>

lemma update_fresh_key: "k \<notin> fst ` set al \<Longrightarrow> AList.update k v al = al @ [(k, v)]"
  by (induction al) auto

lemma hasManager_iff: "hasManager n s \<longleftrightarrow> n \<in> fst ` set (styleManagers s)"
  by (simp add: hasManager_def map_of_eq_None_iff)

lemma stable_registryOkView: "stable registryOkView"
proof -
  have cm: "registryOkView (moduleView (snd (createManager n s)))" if "registryOkView (moduleView s)" for s n
  proof (cases "hasManager n s")
    case True
    then show ?thesis using that by (simp add: createManager_def)
  next
    case False
    then have "n \<notin> fst ` set (styleManagers s)" by (simp add: hasManager_iff)
    then have u: "AList.update n m (styleManagers s) = styleManagers s @ [(n, m)]" for m
      by (rule update_fresh_key)
    have "\<forall>(k, m) \<in> set (styleManagers s). loadingStyleId m \<noteq> Suc (loadingStylesCounter s)"
      using that by (auto simp: registryOkView_def moduleView_def)
    then have "Suc (loadingStylesCounter s) \<notin> (\<lambda>(n, m). loadingStyleId m) ` set (styleManagers s)"
      by auto
    then show ?thesis
      using that False \<open>n \<notin> fst ` set (styleManagers s)\<close>
      by (auto simp: createManager_def Let_def u registryOkView_def moduleView_def)
  qed
  have rm: "registryOkView (moduleView (removeManager n s))" if "registryOkView (moduleView s)" for s n
  proof -
    have "distinct (map f (filter P xs))" if "distinct (map f xs)" for f :: "node \<times> styleManager \<Rightarrow> nat" and P xs
      using that by (rule distinct_map_filter)
    then show ?thesis
      using that
      by (auto simp: removeManager_def registryOkView_def moduleView_def AList.delete_eq
          split: option.splits)
  qed
  show ?thesis
    unfolding stable_def
    using cm rm by (auto simp: moduleView_def updateVariables_def registryOkView_def)
qed

lemma stable_counterAtLeast: "stable (counterAtLeast c)"
  unfolding stable_def
  by (auto simp: counterAtLeast_def moduleView_def createManager_def Let_def removeManager_def
      updateVariables_def split: option.splits)

lemma loadingStyles_cleanFallbackStyle:
  "loadingStyles (stateOf (cleanFallbackStyle s)) = loadingStyles s"
  using view_cleanFallbackStyle[of s] by (simp add: moduleView_def)

lemma loadingStyles_loadingEnd:
  "loadingStyles (stateOf (loadingEnd t s)) = removeAll t (loadingStyles s)"
proof -
  let ?s1 = "s\<lparr>loadingStyles := removeAll t (loadingStyles s)\<rparr>"
  have "loadingEnd t s = cleanFallbackStyle ?s1 \<or> loadingEnd t s = Ok () ?s1"
    by (simp only: loadingEnd_def Let_def split: if_split) blast
  then show ?thesis
    using loadingStyles_cleanFallbackStyle[of ?s1] by auto
qed

lemma loadingStyles_loadingStart:
  "\<not> isPageLoaded s \<Longrightarrow>
   loadingStyles (stateOf (loadingStart E t s)) = List.insert t (loadingStyles s)"
  by (simp add: loadingStart_def Let_def setTextContent_def split: option.splits)

lemmas eval_more = eval_defs styleChangesCallback_def removeManager_def registryOk_def
  registryOkView_def moduleView_def loadingStart_def loadingEnd_def isPageLoaded_def
  documentQuerySelector_def

text \<open>
  C10. A call of \<open>createManager\<close> that makes a manager mints the token one above the
  module-wide counter and stores the manager under its node. Along every run of events
  the registry keeps one manager per node, no two of its managers share a token, every
  token is at most the counter, and the counter never goes down, so a token is never
  minted twice. \<open>loadingEnd\<close> of a token deletes that token and no other, and changes
  nothing in the loading set when the token is not in it; \<open>loadingStart\<close> does nothing once
  the document is interactive or complete, and adds its token before that.
\<close>

theorem loading_tokens_are_distinct:
  "(\<not> hasManager n s \<longrightarrow>
      createManager n s =
        (Some \<lparr>managedElement = n, loadingStyleId = Suc (loadingStylesCounter s)\<rparr>,
         s\<lparr>loadingStylesCounter := Suc (loadingStylesCounter s),
           styleManagers := styleManagers s @
             [(n, \<lparr>managedElement = n, loadingStyleId = Suc (loadingStylesCounter s)\<rparr>)]\<rparr>)) \<and>
   (registryOk s \<longrightarrow>
      registryOk (run evs s) \<and>
      distinct (map (\<lambda>(k, m). loadingStyleId m) (styleManagers (run evs s))) \<and>
      loadingStylesCounter s \<le> loadingStylesCounter (run evs s)) \<and>
   loadingStyles (stateOf (loadingEnd t s)) = removeAll t (loadingStyles s) \<and>
   (t \<notin> set (loadingStyles s) \<longrightarrow> loadingStyles (stateOf (loadingEnd t s)) = loadingStyles s) \<and>
   (isPageLoaded s \<longrightarrow> loadingStart E t s = Ok () s) \<and>
   (\<not> isPageLoaded s \<longrightarrow>
      loadingStyles (stateOf (loadingStart E t s)) = List.insert t (loadingStyles s))"
proof -
  have a: "\<not> hasManager n s \<longrightarrow>
      createManager n s =
        (Some \<lparr>managedElement = n, loadingStyleId = Suc (loadingStylesCounter s)\<rparr>,
         s\<lparr>loadingStylesCounter := Suc (loadingStylesCounter s),
           styleManagers := styleManagers s @
             [(n, \<lparr>managedElement = n, loadingStyleId = Suc (loadingStylesCounter s)\<rparr>)]\<rparr>)"
    by (simp add: createManager_def Let_def hasManager_iff update_fresh_key)
  have b: "registryOk s \<longrightarrow>
      registryOk (run evs s) \<and>
      distinct (map (\<lambda>(k, m). loadingStyleId m) (styleManagers (run evs s))) \<and>
      loadingStylesCounter s \<le> loadingStylesCounter (run evs s)"
  proof
    assume ok: "registryOk s"
    then have r: "registryOk (run evs s)"
      unfolding registryOk_def by (rule stable_run[OF stable_registryOkView])
    have "counterAtLeast (loadingStylesCounter s) (moduleView s)"
      by (simp add: counterAtLeast_def moduleView_def)
    then have "counterAtLeast (loadingStylesCounter s) (moduleView (run evs s))"
      by (rule stable_run[OF stable_counterAtLeast])
    then have c: "loadingStylesCounter s \<le> loadingStylesCounter (run evs s)"
      by (simp add: counterAtLeast_def moduleView_def)
    from r have "distinct (map (\<lambda>(k, m). loadingStyleId m) (styleManagers (run evs s)))"
      by (simp add: registryOk_def registryOkView_def moduleView_def)
    with r c show "registryOk (run evs s) \<and>
      distinct (map (\<lambda>(k, m). loadingStyleId m) (styleManagers (run evs s))) \<and>
      loadingStylesCounter s \<le> loadingStylesCounter (run evs s)" by blast
  qed
  have c: "loadingStyles (stateOf (loadingEnd t s)) = removeAll t (loadingStyles s)"
    by (rule loadingStyles_loadingEnd)
  have d: "t \<notin> set (loadingStyles s) \<longrightarrow> loadingStyles (stateOf (loadingEnd t s)) = loadingStyles s"
    by (simp add: loadingStyles_loadingEnd)
  have e: "isPageLoaded s \<longrightarrow> loadingStart E t s = Ok () s"
    by (simp add: loadingStart_def)
  have f: "\<not> isPageLoaded s \<longrightarrow>
      loadingStyles (stateOf (loadingStart E t s)) = List.insert t (loadingStyles s)"
    by (simp add: loadingStyles_loadingStart)
  from a b c d e f show ?thesis by blast
qed

theorem loading_tokens_are_distinct_witness:
  "\<not> hasManager 7 examplePage \<and> registryOk examplePage \<and> \<not> isPageLoaded examplePage \<and>
   9 \<notin> set (loadingStyles examplePage) \<and>
   isPageLoaded (examplePage\<lparr>readyState := Complete\<rparr>) \<and>
   map (\<lambda>(k, m). (k, loadingStyleId m))
     (styleManagers (run [(exampleEnv, CreateOrUpdateDynamicTheme exampleConfig None False),
                          (exampleEnv, StyleChanges [7] [] [])] examplePage)) = [(0, 1), (7, 2)] \<and>
   loadingStyles (stateOf (loadingStart exampleEnv 9 examplePage)) = [9] \<and>
   loadingStyles (stateOf (loadingEnd 9 examplePage)) = []"
  using loading_tokens_are_distinct[of 7 examplePage
      "[(exampleEnv, CreateOrUpdateDynamicTheme exampleConfig None False),
        (exampleEnv, StyleChanges [7] [] [])]" 9 exampleEnv]
    loading_tokens_are_distinct[of 7 "examplePage\<lparr>readyState := Complete\<rparr>" "[]" 9 exampleEnv]
  by (simp add: eval_more)

subsection \<open>A batch of style changes\<close>

lemma removeManager_other:
  "n \<noteq> k \<Longrightarrow> map_of (styleManagers (removeManager k s)) n = map_of (styleManagers s) n"
  by (simp add: removeManager_def delete_conv' split: option.splits)

lemma fold_removeManager_other:
  "n \<notin> set ks \<Longrightarrow> map_of (styleManagers (fold removeManager ks s)) n = map_of (styleManagers s) n"
  by (induction ks arbitrary: s) (auto simp: removeManager_other)

lemma fold_removeManager_effects:
  "\<exists>X. effects (fold removeManager ks s) = effects s @ X \<and> set X \<subseteq> ManagerDestroy ` set ks"
proof (induction ks arbitrary: s)
  case Nil
  then show ?case by simp
next
  case (Cons k ks)
  obtain X where X: "effects (fold removeManager ks (removeManager k s)) = effects (removeManager k s) @ X"
    "set X \<subseteq> ManagerDestroy ` set ks"
    using Cons.IH[of "removeManager k s"] by blast
  have "effects (removeManager k s) = effects s \<or> effects (removeManager k s) = effects s @ [ManagerDestroy k]"
    by (simp add: removeManager_def split: option.splits)
  then show ?case
  proof
    assume "effects (removeManager k s) = effects s"
    with X show ?thesis by auto
  next
    assume "effects (removeManager k s) = effects s @ [ManagerDestroy k]"
    with X have "effects (fold removeManager (k # ks) s) = effects s @ (ManagerDestroy k # X)"
      "set (ManagerDestroy k # X) \<subseteq> ManagerDestroy ` set (k # ks)" by auto
    then show ?thesis by blast
  qed
qed

lemma createManager_other:
  "n \<noteq> k \<Longrightarrow> map_of (styleManagers (snd (createManager k s))) n = map_of (styleManagers s) n"
  by (simp add: createManager_def Let_def update_conv')

lemma createManagers_other:
  "n \<notin> set ks \<Longrightarrow> map_of (styleManagers (snd (createManagers ks s))) n = map_of (styleManagers s) n"
  unfolding snd_createManagers
  by (induction ks arbitrary: s) (auto simp: createManager_other)

lemma createManagers_effects: "effects (snd (createManagers ks s)) = effects s"
  unfolding snd_createManagers
  by (induction ks arbitrary: s) (auto simp: createManager_def Let_def)

lemma createManager_element:
  "fst (createManager k s) = Some m \<Longrightarrow> managedElement m = k"
  by (auto simp: createManager_def Let_def split: if_splits)

lemma createManagers_elements:
  "those (fst (createManagers ks s)) = Some ms \<Longrightarrow> map managedElement ms = ks"
proof (induction ks arbitrary: s ms)
  case Nil
  then show ?case by simp
next
  case (Cons k ks)
  from Cons.prems have "those (fst (createManager k s) # fst (createManagers ks (snd (createManager k s)))) = Some ms"
    by (simp only: fst_createManagers_Cons)
  then obtain m ms' where
    m: "fst (createManager k s) = Some m" and
    ms': "those (fst (createManagers ks (snd (createManager k s)))) = Some ms'" and
    ms: "ms = m # ms'"
    by (auto split: option.splits)
  show ?case using Cons.IH[OF ms'] createManager_element[OF m] ms by simp
qed

lemma fold_updateVariables_effects: "effects (fold (updateVariables E) vss s) = effects s"
  by (induction vss arbitrary: s) (simp_all add: updateVariables_def)

lemma fold_updateVariables_styleManagers:
  "styleManagers (fold (updateVariables E) vss s) = styleManagers s"
  by (induction vss arbitrary: s) (simp_all add: updateVariables_def)

lemma set_uniqueInOrder: "set (uniqueInOrder xs) = set xs"
  by (induction xs rule: uniqueInOrder.induct) auto

lemma distinct_uniqueInOrder: "distinct (uniqueInOrder xs)"
  by (induction xs rule: uniqueInOrder.induct) (auto simp: set_uniqueInOrder)

lemma createManager_made:
  "\<not> hasManager k s \<Longrightarrow> \<exists>m. fst (createManager k s) = Some m"
  by (simp add: createManager_def Let_def)

lemma createManager_has: "hasManager k (snd (createManager k s))"
  by (simp add: createManager_def Let_def hasManager_def update_conv')

lemma createManager_keeps:
  "hasManager n s \<Longrightarrow> hasManager n (snd (createManager k s))"
  by (simp add: createManager_def Let_def hasManager_def update_conv')

lemma createManagers_keeps:
  "hasManager n s \<Longrightarrow> hasManager n (snd (createManagers ks s))"
  unfolding snd_createManagers
  by (induction ks arbitrary: s) (simp_all add: createManager_keeps)

lemma createManagers_has:
  "n \<in> set ks \<Longrightarrow> hasManager n (snd (createManagers ks s))"
proof (induction ks arbitrary: s)
  case Nil
  then show ?case by simp
next
  case (Cons k ks)
  have step: "snd (createManagers (k # ks) s) = snd (createManagers ks (snd (createManager k s)))"
    by (simp add: snd_createManagers del: createManagers.simps)
  show ?case
  proof (cases "n = k")
    case True
    then show ?thesis
      unfolding step using createManagers_keeps[OF createManager_has, of k ks s] by simp
  next
    case False
    then have "n \<in> set ks" using Cons.prems by simp
    then show ?thesis unfolding step by (rule Cons.IH)
  qed
qed

lemma createManagers_all_made:
  "distinct ks \<Longrightarrow> (\<And>k. k \<in> set ks \<Longrightarrow> \<not> hasManager k s) \<Longrightarrow>
   \<exists>ms. those (fst (createManagers ks s)) = Some ms"
proof (induction ks arbitrary: s)
  case Nil
  then show ?case by simp
next
  case (Cons k ks)
  obtain m where m: "fst (createManager k s) = Some m"
    using createManager_made[of k s] Cons.prems(2)[of k] by auto
  have "\<not> hasManager j (snd (createManager k s))" if "j \<in> set ks" for j
  proof -
    have "j \<noteq> k" using Cons.prems(1) that by auto
    then have "map_of (styleManagers (snd (createManager k s))) j = map_of (styleManagers s) j"
      by (rule createManager_other)
    then show ?thesis using Cons.prems(2)[of j] that by (simp add: hasManager_def)
  qed
  then obtain ms where "those (fst (createManagers ks (snd (createManager k s)))) = Some ms"
    using Cons.IH[of "snd (createManager k s)"] Cons.prems(1) by auto
  then show ?case using m by (simp add: fst_createManagers_Cons del: createManagers.simps)
qed

text \<open>
  C5, as stated, fails for a style that has no manager: a style in both \<open>removed\<close> and
  \<open>created\<close> is filtered out of the new managers only when the registry has it. After the
  theme is established on the example page, a batch that reports node 7, which has no
  manager, as removed and created returns normally and has made a manager for it, with a
  new token, and rendered and watched it.
\<close>

theorem moved_style_without_manager_counterexample:
  "(7::nat) \<in> set [7] \<and>
   \<not> hasManager 7 (run [(exampleEnv, CreateOrUpdateDynamicTheme exampleConfig None False)] examplePage) \<and>
   \<not> threw (styleChangesCallback exampleEnv [7] [] [7]
      (run [(exampleEnv, CreateOrUpdateDynamicTheme exampleConfig None False)] examplePage)) \<and>
   map_of (styleManagers (stateOf (styleChangesCallback exampleEnv [7] [] [7]
      (run [(exampleEnv, CreateOrUpdateDynamicTheme exampleConfig None False)] examplePage)))) 7
     = Some \<lparr>managedElement = 7, loadingStyleId = 2\<rparr> \<and>
   drop (length (effects (run [(exampleEnv, CreateOrUpdateDynamicTheme exampleConfig None False)] examplePage)))
     (effects (stateOf (styleChangesCallback exampleEnv [7] [] [7]
        (run [(exampleEnv, CreateOrUpdateDynamicTheme exampleConfig None False)] examplePage))))
     = [ManagerRender 7, ManagerWatch 7]"
  by code_simp

text \<open>
  C5, amended. For every batch delivered to the callback of \<open>watchForUpdates\<close> and every
  style that is both in \<open>removed\<close> and in \<open>created\<close>: the callback returns normally and
  \<open>removeManager\<close> is not called for the style (the batch adds no destroy of its manager).
  When the style has a manager, it is filtered out of the new managers: after the batch
  the registry holds the same manager for it, and the batch neither renders nor watches
  it. When it has none, it is given one, as any created style is.
\<close>

theorem moved_style_is_not_destroyed:
  "n \<in> set removed \<and> n \<in> set created \<longrightarrow>
     (\<exists>s'. styleChangesCallback E created updated removed s = Ok () s' \<and>
        ManagerDestroy n \<notin> set (drop (length (effects s)) (effects s')) \<and>
        (hasManager n s \<longrightarrow>
           map_of (styleManagers s') n = map_of (styleManagers s) n \<and>
           ManagerRender n \<notin> set (drop (length (effects s)) (effects s')) \<and>
           ManagerWatch n \<notin> set (drop (length (effects s)) (effects s'))) \<and>
        (\<not> hasManager n s \<longrightarrow>
           hasManager n s' \<and>
           ManagerWatch n \<in> set (drop (length (effects s)) (effects s'))))"
proof (intro impI)
  assume moved: "n \<in> set removed \<and> n \<in> set created"
  let ?gone = "filter (\<lambda>style. style \<notin> set (filter (\<lambda>style. style \<in> set created) removed)) removed"
  let ?s1 = "fold removeManager ?gone s"
  let ?styles = "filter (\<lambda>style. \<not> hasManager style ?s1) (uniqueInOrder (created @ updated))"
  let ?r = "styleChangesCallback E created updated removed s"
  obtain made s2 where cm: "createManagers ?styles ?s1 = (made, s2)" by (cases "createManagers ?styles ?s1")
  have n_gone: "n \<notin> set ?gone" using moved by simp
  obtain X where X: "effects ?s1 = effects s @ X" "set X \<subseteq> ManagerDestroy ` set ?gone"
    using fold_removeManager_effects[of ?gone s] by blast
  have e2: "effects s2 = effects s @ X"
    using createManagers_effects[of ?styles ?s1] cm X by simp
  have nX: "ManagerDestroy n \<notin> set X" using X(2) n_gone by auto
  have m1: "map_of (styleManagers ?s1) n = map_of (styleManagers s) n"
    using n_gone by (rule fold_removeManager_other)
  have keep: "hasManager n s \<Longrightarrow> n \<notin> set ?styles"
    using m1 by (simp add: hasManager_def)
  have new: "\<not> hasManager n s \<Longrightarrow> n \<in> set ?styles"
    using m1 moved by (simp add: hasManager_def set_uniqueInOrder)
  have m2: "hasManager n s \<Longrightarrow> map_of (styleManagers s2) n = map_of (styleManagers s) n"
    using createManagers_other[OF keep, of ?s1] cm m1 by simp
  have h2: "\<not> hasManager n s \<Longrightarrow> hasManager n s2"
    using createManagers_has[OF new, of ?s1] cm by simp
  have "distinct ?styles" by (simp add: distinct_uniqueInOrder)
  then obtain ms where Some: "those made = Some ms"
    using createManagers_all_made[of ?styles ?s1] cm by auto
  have els: "map managedElement ms = ?styles"
    using createManagers_elements[of ?styles ?s1 ms] cm Some by simp
  define Y where "Y = (if collectVariables E ms = [] then map ManagerRender (map managedElement ms) else [])
                      @ map (\<lambda>m. ManagerWatch (managedElement m)) ms"
  define s' where "s' = watchManagers ms
      (if collectVariables E ms = [] then renderManagers (map managedElement ms) s2
       else throttledRenderAllStyles False (fold (updateVariables E) (collectVariables E ms) s2))"
  have r: "?r = Ok () s'"
    using cm Some by (simp add: styleChangesCallback_def Let_def s'_def)
  have ef: "effects s' = effects s @ X @ Y" and sm: "styleManagers s' = styleManagers s2"
    using e2
    by (simp_all add: s'_def Y_def watchManagers_def renderManagers_def
        throttledRenderAllStyles_def fold_updateVariables_effects fold_updateVariables_styleManagers)
  have dr: "drop (length (effects s)) (effects s') = X @ Y" using ef by simp
  have nY: "ManagerDestroy n \<notin> set Y" by (auto simp: Y_def)
  have nXr: "ManagerRender n \<notin> set X" "ManagerWatch n \<notin> set X" using X(2) by auto
  have a: "ManagerDestroy n \<notin> set (drop (length (effects s)) (effects s'))"
    using nX nY dr by simp
  have b: "map_of (styleManagers s') n = map_of (styleManagers s) n \<and>
           ManagerRender n \<notin> set (drop (length (effects s)) (effects s')) \<and>
           ManagerWatch n \<notin> set (drop (length (effects s)) (effects s'))" if "hasManager n s"
  proof -
    have "n \<notin> set (map managedElement ms)" unfolding els using keep[OF that] .
    then have "n \<notin> managedElement ` set ms" by simp
    then have "ManagerRender n \<notin> set Y \<and> ManagerWatch n \<notin> set Y" unfolding Y_def by auto
    then show ?thesis using nXr dr sm m2[OF that] by simp
  qed
  have c: "hasManager n s' \<and> ManagerWatch n \<in> set (drop (length (effects s)) (effects s'))"
    if "\<not> hasManager n s"
  proof -
    have "n \<in> set (map managedElement ms)" unfolding els using new[OF that] .
    then have "n \<in> managedElement ` set ms" by simp
    then have "ManagerWatch n \<in> set Y" unfolding Y_def by auto
    moreover have "hasManager n s'" using h2[OF that] sm by (simp add: hasManager_def)
    ultimately show ?thesis using dr by simp
  qed
  show "\<exists>s'. ?r = Ok () s' \<and>
        ManagerDestroy n \<notin> set (drop (length (effects s)) (effects s')) \<and>
        (hasManager n s \<longrightarrow>
           map_of (styleManagers s') n = map_of (styleManagers s) n \<and>
           ManagerRender n \<notin> set (drop (length (effects s)) (effects s')) \<and>
           ManagerWatch n \<notin> set (drop (length (effects s)) (effects s'))) \<and>
        (\<not> hasManager n s \<longrightarrow>
           hasManager n s' \<and>
           ManagerWatch n \<in> set (drop (length (effects s)) (effects s')))"
    using r a b c by blast
qed

theorem moved_style_is_not_destroyed_witness:
  "(0::nat) \<in> set [0] \<and>
   hasManager 0 (run [(exampleEnv, CreateOrUpdateDynamicTheme exampleConfig None False)] examplePage) \<and>
   \<not> threw (styleChangesCallback exampleEnv [0] [] [0]
      (run [(exampleEnv, CreateOrUpdateDynamicTheme exampleConfig None False)] examplePage)) \<and>
   map_of (styleManagers (stateOf (styleChangesCallback exampleEnv [0] [] [0]
      (run [(exampleEnv, CreateOrUpdateDynamicTheme exampleConfig None False)] examplePage)))) 0
     = Some \<lparr>managedElement = 0, loadingStyleId = 1\<rparr> \<and>
   ManagerDestroy 0 \<notin> set (drop
      (length (effects (run [(exampleEnv, CreateOrUpdateDynamicTheme exampleConfig None False)] examplePage)))
      (effects (stateOf (styleChangesCallback exampleEnv [0] [] [0]
        (run [(exampleEnv, CreateOrUpdateDynamicTheme exampleConfig None False)] examplePage)))))"
proof -
  let ?S = "run [(exampleEnv, CreateOrUpdateDynamicTheme exampleConfig None False)] examplePage"
  have h: "hasManager 0 ?S" by code_simp
  have m: "map_of (styleManagers ?S) 0 = Some \<lparr>managedElement = 0, loadingStyleId = 1\<rparr>"
    by code_simp
  obtain s' where "styleChangesCallback exampleEnv [0] [] [0] ?S = Ok () s'"
    "ManagerDestroy 0 \<notin> set (drop (length (effects ?S)) (effects s'))"
    "map_of (styleManagers s') 0 = map_of (styleManagers ?S) 0"
    using moved_style_is_not_destroyed[of 0 "[0]" "[0]" exampleEnv "[]" ?S] h by auto
  then show ?thesis using h m by simp
qed

subsection \<open>Lookups of a missing element\<close>

lemma cleanFallbackStyle_skips:
  "headChildren s = Some cs \<Longrightarrow> querySelectorIn (elems s) ''darkreader--fallback'' cs = None \<Longrightarrow>
   cleanFallbackStyle s = Ok () s"
  by (simp add: cleanFallbackStyle_def)

lemma loadingStart_throws:
  "\<not> isPageLoaded s \<Longrightarrow> documentQuerySelector ''darkreader--fallback'' s = None \<Longrightarrow>
   loadingStart E t s = Threw TypeError (s\<lparr>loadingStyles := List.insert t (loadingStyles s)\<rparr>)"
  by (simp add: loadingStart_def Let_def documentQuerySelector_def documentNodes_def)

text \<open>
  C8 fails on the code. \<open>cleanFallbackStyle\<close> checks that the fallback style exists, and
  \<open>loadingStart\<close> does not: it reads \<open>textContent\<close> of what \<open>document.querySelector\<close>
  returned. The theme is established on a page that is still loading, the page then empties
  its head, and the manager of the page's style sheet calls \<open>loadingStart\<close>: the call adds the
  token to the loading set and then throws a \<open>TypeError\<close>.
\<close>

theorem loadingStart_throws_without_fallback:
  "loadingStart exampleEnv 1
     (run [(exampleEnv, CreateOrUpdateDynamicTheme exampleConfig None False),
           (exampleEnv, pageClearsHead)] examplePage)
   = Threw TypeError
      ((run [(exampleEnv, CreateOrUpdateDynamicTheme exampleConfig None False),
             (exampleEnv, pageClearsHead)] examplePage)\<lparr>loadingStyles := [1]\<rparr>)"
proof -
  let ?S = "run [(exampleEnv, CreateOrUpdateDynamicTheme exampleConfig None False),
           (exampleEnv, pageClearsHead)] examplePage"
  have a: "\<not> isPageLoaded ?S" by code_simp
  have b: "documentQuerySelector ''darkreader--fallback'' ?S = None" by code_simp
  have c: "loadingStyles ?S = []" by code_simp
  show ?thesis using loadingStart_throws[OF a b, of exampleEnv 1] c by simp
qed

text \<open>The same missing check where there is no head yet: outside Firefox
  \<open>createOrUpdateDynamicTheme\<close> calls \<open>createOrUpdateStyle\<close>, which reads
  \<open>document.head.querySelector\<close>.\<close>

lemma createOrUpdateDynamicTheme_without_head_throws:
  "headChildren s = None \<Longrightarrow> \<not> isFirefox E \<Longrightarrow>
   createOrUpdateDynamicTheme E config fx iframe s =
     Threw TypeError (s\<lparr>filterConfig := Some config, themeFixes := fx, isIFrame := Some iframe\<rparr>)"
  by (simp add: createOrUpdateDynamicTheme_def createOrUpdateStyle_def andThen_def)

subsection \<open>Inserting under the head\<close>

lemma nextSiblingIn_append:
  "y \<notin> set pre \<Longrightarrow> nextSiblingIn y (pre @ y # rest) = firstChild rest"
  by (induction pre) auto

lemma insertAt_append:
  "r \<notin> set pre \<Longrightarrow> insertAt x r (pre @ r # rest) = pre @ x # r # rest"
  by (induction pre) auto

lemma insert_front:
  assumes "headChildren s = Some cs" "distinct cs"
  shows "headInsertBefore x (headFirstChild s) s =
           Ok () ((detach x s)\<lparr>headChildren := Some (x # removeAll x cs)\<rparr>)"
proof (cases cs)
  case Nil
  then show ?thesis using assms by (simp add: headInsertBefore_def headFirstChild_def firstChild_def)
next
  case (Cons h t)
  show ?thesis
  proof (cases "h = x")
    case True
    then have xt: "x \<notin> set t" using assms(2) Cons by simp
    then have rt: "removeAll x t = t" by simp
    show ?thesis
    proof (cases t)
      case Nil
      then show ?thesis using assms Cons True
        by (simp add: headInsertBefore_def headFirstChild_def firstChild_def)
    next
      case (Cons r t')
      then have "r \<noteq> x" using xt by auto
      then show ?thesis using assms \<open>cs = h # t\<close> True Cons xt
        by (simp add: headInsertBefore_def headFirstChild_def firstChild_def)
    qed
  next
    case False
    then show ?thesis using assms Cons
      by (simp add: headInsertBefore_def headFirstChild_def firstChild_def)
  qed
qed

lemma insert_after:
  assumes "headChildren s = Some (pre @ y # rest)" "distinct (pre @ y # rest)"
    "x \<notin> set pre" "x \<noteq> y"
  shows "headInsertBefore x (nextSibling y s) s =
           Ok () ((detach x s)\<lparr>headChildren := Some (pre @ y # x # removeAll x rest)\<rparr>)"
proof -
  have ypre: "y \<notin> set pre" using assms(2) by simp
  have ns: "nextSibling y s = firstChild rest"
    using assms(1) ypre by (simp add: nextSibling_def nextSiblingIn_append)
  have rp: "removeAll x pre = pre" using assms(3) by simp
  show ?thesis
  proof (cases rest)
    case Nil
    then show ?thesis using assms ns rp
      by (simp add: headInsertBefore_def firstChild_def)
  next
    case (Cons r rest')
    show ?thesis
    proof (cases "r = x")
      case True
      have xr: "x \<notin> set rest'" using assms(2) Cons True by simp
      have nx: "nextSiblingIn x (pre @ y # rest) = firstChild rest'"
        using nextSiblingIn_append[of x "pre @ [y]" rest'] assms(3,4) Cons True by simp
      show ?thesis
      proof (cases rest')
        case Nil
        then show ?thesis using assms ns rp Cons True nx
          by (simp add: headInsertBefore_def firstChild_def)
      next
        case (Cons r2 rest'')
        have r2: "r2 \<notin> set (pre @ [y])" "r2 \<noteq> x"
          using assms(2) \<open>rest = r # rest'\<close> Cons True by auto
        have "insertAt x r2 ((pre @ [y]) @ r2 # rest'') = (pre @ [y]) @ x # r2 # rest''"
          using r2(1) by (rule insertAt_append)
        then show ?thesis using assms ns rp \<open>rest = r # rest'\<close> Cons True nx xr r2
          by (simp add: headInsertBefore_def firstChild_def)
      qed
    next
      case False
      have r: "r \<notin> set (pre @ [y])" using assms(2) Cons by auto
      have "insertAt x r ((pre @ [y]) @ r # removeAll x rest') = (pre @ [y]) @ x # r # removeAll x rest'"
        using r by (rule insertAt_append)
      then show ?thesis using assms ns rp Cons False
        by (simp add: headInsertBefore_def firstChild_def)
    qed
  qed
qed

lemma insert_last:
  assumes "headChildren s = Some cs"
  shows "headAppendChild x s = Ok () ((detach x s)\<lparr>headChildren := Some (removeAll x cs @ [x])\<rparr>)"
  using assms by (simp add: headAppendChild_def headInsertBefore_def)

subsection \<open>Placing one sentinel style\<close>

lemma extends_refl: "extends s s"
  by (simp add: extends_def)

lemma extends_trans: "extends s s1 \<Longrightarrow> extends s1 s2 \<Longrightarrow> extends s s2"
  by (auto simp: extends_def)

lemma extends_hasClass:
  "extends s s' \<Longrightarrow> n < nextNode s \<Longrightarrow> hasClass (elems s') c n = hasClass (elems s) c n"
  by (simp add: extends_def hasClass_def)

lemma hasClass_setTextContent [simp]:
  "hasClass (elems (setTextContent x t s)) c n = hasClass (elems s) c n"
  by (simp add: hasClass_def setTextContent_def)

lemma hasClass_setupStylePositionWatcher [simp]:
  "hasClass (elems (setupStylePositionWatcher x a s)) c n = hasClass (elems s) c n"
  by (simp add: hasClass_def setupStylePositionWatcher_def Let_def split: option.splits)

lemma headChildren_setTextContent [simp]: "headChildren (setTextContent x t s) = headChildren s"
  by (simp add: setTextContent_def)

lemma headChildren_setupStylePositionWatcher [simp]:
  "headChildren (setupStylePositionWatcher x a s) = headChildren s"
  by (simp add: setupStylePositionWatcher_def Let_def split: option.splits)

lemma nextNode_setTextContent [simp]: "nextNode (setTextContent x t s) = nextNode s"
  by (simp add: setTextContent_def)

lemma nextNode_setupStylePositionWatcher [simp]:
  "nextNode (setupStylePositionWatcher x a s) = nextNode s"
  by (simp add: setupStylePositionWatcher_def Let_def split: option.splits)

lemma filterConfig_setTextContent [simp]: "filterConfig (setTextContent x t s) = filterConfig s"
  by (simp add: setTextContent_def)

lemma filterConfig_setupStylePositionWatcher [simp]:
  "filterConfig (setupStylePositionWatcher x a s) = filterConfig s"
  by (simp add: setupStylePositionWatcher_def Let_def split: option.splits)

lemma headOk_setTextContent [simp]: "headOk (setTextContent x t s) = headOk s"
  by (simp add: headOk_def split: option.splits)

lemma headOk_setupStylePositionWatcher [simp]: "headOk (setupStylePositionWatcher x a s) = headOk s"
  by (simp add: headOk_def split: option.splits)

lemma extends_finish:
  "extends s (setupStylePositionWatcher x a (setTextContent x t s))"
  by (simp add: extends_def) (simp add: setTextContent_def setupStylePositionWatcher_def Let_def split: option.splits)

lemma headOkI:
  assumes "headChildren s = Some cs" "distinct cs" "\<And>n. n \<in> set cs \<Longrightarrow> n < nextNode s"
    "\<And>n e d. n \<in> set cs \<Longrightarrow> e \<in> set sentinelClasses \<Longrightarrow> d \<in> set sentinelClasses \<Longrightarrow>
        hasClass (elems s) e n \<Longrightarrow> hasClass (elems s) d n \<Longrightarrow> e = d"
    "\<And>n m e. n \<in> set cs \<Longrightarrow> m \<in> set cs \<Longrightarrow> e \<in> set sentinelClasses \<Longrightarrow>
        hasClass (elems s) e n \<Longrightarrow> hasClass (elems s) e m \<Longrightarrow> n = m"
  shows "headOk s"
  unfolding headOk_def using assms by (simp only: option.case) blast

text \<open>\<open>headOk\<close> does not depend on the order of the children.\<close>

lemma headOk_reorder:
  assumes "headOk s" "headChildren s = Some cs" "distinct cs'" "set cs' = set cs"
  shows "headOk (s\<lparr>headChildren := Some cs'\<rparr>)"
  using assms by (simp add: headOk_def)

lemma headOk_detach_reorder:
  assumes "headOk (s\<lparr>headChildren := Some (x # removeAll x cs)\<rparr>)" "distinct cs'"
    "set cs' = insert x (set cs)"
  shows "headOk ((detach x s)\<lparr>headChildren := Some cs'\<rparr>)"
  using assms by (simp add: headOk_def detach_def)

lemma sentinel_not_darkreader: "''darkreader'' \<notin> set sentinelClasses"
  by (simp add: sentinelClasses_def)

text \<open>What \<open>createOrUpdateStyle\<close> returns can be put under the head.\<close>

lemma createOrUpdateStyle_spec:
  assumes ok: "headOk s" and h: "headChildren s = Some cs" and c: "c \<in> set sentinelClasses"
  shows "\<exists>x s1. createOrUpdateStyle c s = Ok x s1 \<and> headChildren s1 = Some cs \<and>
           headOk (s1\<lparr>headChildren := Some (x # removeAll x cs)\<rparr>) \<and>
           hasClass (elems s1) c x \<and> x < nextNode s1 \<and> extends s s1 \<and>
           (\<forall>p \<in> set cs. \<forall>d \<in> set sentinelClasses. d \<noteq> c \<longrightarrow> hasClass (elems s) d p \<longrightarrow> x \<noteq> p)"
proof (cases "querySelectorIn (elems s) c cs")
  case None
  let ?x = "nextNode s"
  let ?s1 = "s\<lparr>nextNode := Suc ?x, elems := (elems s)(?x :=
               \<lparr>tagName = ''style'', classList = [''darkreader'', c], media = ''screen'', textContent = []\<rparr>)\<rparr>"
  have r: "createOrUpdateStyle c s = Ok ?x ?s1"
    using h None by (simp add: createOrUpdateStyle_def)
  have nocls: "\<forall>n \<in> set cs. \<not> hasClass (elems s) c n"
    using None by (simp add: querySelectorIn_def find_None_iff)
  have fresh: "?x \<notin> set cs" using ok h by (auto simp: headOk_def)
  have old: "n \<in> set cs \<Longrightarrow> hasClass (elems ?s1) d n = hasClass (elems s) d n" for n d
    using fresh by (auto simp: hasClass_def)
  have new: "hasClass (elems ?s1) d ?x \<longleftrightarrow> d = ''darkreader'' \<or> d = c" for d
    by (auto simp: hasClass_def)
  have rm: "removeAll ?x cs = cs" using fresh by simp
  have d: "distinct cs" and b: "\<forall>n \<in> set cs. n < ?x"
    and one: "\<And>n e d. n \<in> set cs \<Longrightarrow> e \<in> set sentinelClasses \<Longrightarrow> d \<in> set sentinelClasses \<Longrightarrow>
                hasClass (elems s) e n \<Longrightarrow> hasClass (elems s) d n \<Longrightarrow> e = d"
    and uniq: "\<And>n m e. n \<in> set cs \<Longrightarrow> m \<in> set cs \<Longrightarrow> e \<in> set sentinelClasses \<Longrightarrow>
                hasClass (elems s) e n \<Longrightarrow> hasClass (elems s) e m \<Longrightarrow> n = m"
    using ok h by (auto simp: headOk_def)
  have sent: "e \<in> set sentinelClasses \<Longrightarrow> hasClass (elems ?s1) e ?x \<Longrightarrow> e = c" for e
    using new[of e] sentinel_not_darkreader by auto
  have el: "elems (?s1\<lparr>headChildren := Some (?x # cs)\<rparr>) = elems ?s1" by simp
  have "headOk (?s1\<lparr>headChildren := Some (?x # cs)\<rparr>)"
  proof (rule headOkI[of _ "?x # cs"])
    show "headChildren (?s1\<lparr>headChildren := Some (?x # cs)\<rparr>) = Some (?x # cs)" by simp
  next
    show "distinct (?x # cs)" using d fresh by simp
  next
    fix n assume "n \<in> set (?x # cs)"
    then show "n < nextNode (?s1\<lparr>headChildren := Some (?x # cs)\<rparr>)" using b by auto
  next
    fix n e d
    assume "n \<in> set (?x # cs)" "e \<in> set sentinelClasses" "d \<in> set sentinelClasses"
      "hasClass (elems (?s1\<lparr>headChildren := Some (?x # cs)\<rparr>)) e n"
      "hasClass (elems (?s1\<lparr>headChildren := Some (?x # cs)\<rparr>)) d n"
    then show "e = d" unfolding el using sent[of e] sent[of d] one[of n e d] old[of n] by auto
  next
    fix n m e
    assume "n \<in> set (?x # cs)" "m \<in> set (?x # cs)" "e \<in> set sentinelClasses"
      "hasClass (elems (?s1\<lparr>headChildren := Some (?x # cs)\<rparr>)) e n"
      "hasClass (elems (?s1\<lparr>headChildren := Some (?x # cs)\<rparr>)) e m"
    then show "n = m" unfolding el using sent[of e] uniq[of n m e] old[of n] old[of m] nocls by auto
  qed
  then have "headOk (?s1\<lparr>headChildren := Some (?x # removeAll ?x cs)\<rparr>)"
    by (simp only: rm)
  moreover have "extends s ?s1" by (simp add: extends_def)
  moreover have "hasClass (elems ?s1) c ?x" using new[of c] by blast
  moreover have "headChildren ?s1 = Some cs" using h by simp
  moreover have "?x < nextNode ?s1" by simp
  moreover have "\<forall>p \<in> set cs. \<forall>d \<in> set sentinelClasses. d \<noteq> c \<longrightarrow> hasClass (elems s) d p \<longrightarrow> ?x \<noteq> p"
    using fresh by auto
  ultimately show ?thesis using r by blast
next
  case (Some x)
  have r: "createOrUpdateStyle c s = Ok x s"
    using h Some by (simp add: createOrUpdateStyle_def)
  have x: "x \<in> set cs" "hasClass (elems s) c x"
    using Some by (auto simp: querySelectorIn_def find_Some_iff)
  have "distinct (x # removeAll x cs)" "set (x # removeAll x cs) = set cs"
    using ok h x by (auto simp: headOk_def distinct_removeAll)
  then have "headOk (s\<lparr>headChildren := Some (x # removeAll x cs)\<rparr>)"
    using headOk_reorder[OF ok h] by blast
  moreover have "x < nextNode s" using ok h x by (auto simp: headOk_def)
  moreover have "\<forall>p \<in> set cs. \<forall>d \<in> set sentinelClasses. d \<noteq> c \<longrightarrow> hasClass (elems s) d p \<longrightarrow> x \<noteq> p"
    using ok h x c by (auto simp: headOk_def)
  ultimately show ?thesis using r h x by (auto simp: extends_refl)
qed

lemma extends_detach: "extends s (detach x s)"
  by (simp add: extends_def detach_def)

lemma place_front:
  assumes ok: "headOk s" and h: "headChildren s = Some cs" and c: "c \<in> set sentinelClasses"
  shows "\<exists>x s2.
           andThen (createOrUpdateStyle c s)
             (\<lambda>x s1. andThen (headInsertBefore x (headFirstChild s1) s1) (\<lambda>u s2. K x s2)) = K x s2 \<and>
           headOk s2 \<and> headChildren s2 = Some (x # removeAll x cs) \<and>
           hasClass (elems s2) c x \<and> x < nextNode s2 \<and> extends s s2"
proof -
  obtain x s1 where r: "createOrUpdateStyle c s = Ok x s1" and h1: "headChildren s1 = Some cs"
    and ok1: "headOk (s1\<lparr>headChildren := Some (x # removeAll x cs)\<rparr>)"
    and cl: "hasClass (elems s1) c x" and lt: "x < nextNode s1" and ex: "extends s s1"
    using createOrUpdateStyle_spec[OF ok h c] by blast
  have d: "distinct cs" using ok h by (simp add: headOk_def)
  let ?s2 = "(detach x s1)\<lparr>headChildren := Some (x # removeAll x cs)\<rparr>"
  have ins: "headInsertBefore x (headFirstChild s1) s1 = Ok () ?s2"
    using h1 d by (rule insert_front)
  have "headOk ?s2"
    using ok1 d by (intro headOk_detach_reorder) (auto simp: distinct_removeAll)
  moreover have "hasClass (elems ?s2) c x" using cl by (simp add: detach_def hasClass_def)
  moreover have "x < nextNode ?s2" using lt by (simp add: detach_def)
  moreover have "extends s ?s2" using ex by (simp add: extends_def detach_def)
  moreover have "headChildren ?s2 = Some (x # removeAll x cs)" by simp
  moreover have "andThen (createOrUpdateStyle c s)
             (\<lambda>x s1. andThen (headInsertBefore x (headFirstChild s1) s1) (\<lambda>u s2. K x s2)) = K x ?s2"
    by (simp add: r ins andThen_def)
  ultimately show ?thesis by blast
qed

lemma place_after:
  assumes ok: "headOk s" and h: "headChildren s = Some (pre @ y # rest)"
    and c: "c \<in> set sentinelClasses"
    and others: "\<forall>p \<in> set (pre @ [y]). \<exists>d \<in> set sentinelClasses. d \<noteq> c \<and> hasClass (elems s) d p"
  shows "\<exists>x s2.
           andThen (createOrUpdateStyle c s)
             (\<lambda>x s1. andThen (headInsertBefore x (nextSibling y s1) s1) (\<lambda>u s2. K x s2)) = K x s2 \<and>
           headOk s2 \<and> headChildren s2 = Some (pre @ y # x # removeAll x rest) \<and>
           hasClass (elems s2) c x \<and> x < nextNode s2 \<and> extends s s2 \<and>
           (\<forall>p \<in> set (pre @ y # rest). \<forall>d \<in> set sentinelClasses.
              d \<noteq> c \<longrightarrow> hasClass (elems s) d p \<longrightarrow> x \<noteq> p)"
proof -
  let ?cs = "pre @ y # rest"
  obtain x s1 where r: "createOrUpdateStyle c s = Ok x s1" and h1: "headChildren s1 = Some ?cs"
    and ok1: "headOk (s1\<lparr>headChildren := Some (x # removeAll x ?cs)\<rparr>)"
    and cl: "hasClass (elems s1) c x" and lt: "x < nextNode s1" and ex: "extends s s1"
    and ne: "\<forall>p \<in> set ?cs. \<forall>d \<in> set sentinelClasses. d \<noteq> c \<longrightarrow> hasClass (elems s) d p \<longrightarrow> x \<noteq> p"
    using createOrUpdateStyle_spec[OF ok h c] by blast
  have d: "distinct ?cs" using ok h by (simp add: headOk_def)
  have "x \<notin> set (pre @ [y])"
  proof
    assume in_pre: "x \<in> set (pre @ [y])"
    then obtain d where "d \<in> set sentinelClasses" "d \<noteq> c" "hasClass (elems s) d x"
      using others by blast
    moreover have "x \<in> set ?cs" using in_pre by auto
    ultimately show False using ne by blast
  qed
  then have xp: "x \<notin> set pre" "x \<noteq> y" by auto
  let ?s2 = "(detach x s1)\<lparr>headChildren := Some (pre @ y # x # removeAll x rest)\<rparr>"
  have ins: "headInsertBefore x (nextSibling y s1) s1 = Ok () ?s2"
    using h1 d xp by (rule insert_after)
  have "distinct (pre @ y # x # removeAll x rest)"
    using d xp by (auto simp: distinct_removeAll)
  moreover have "set (pre @ y # x # removeAll x rest) = insert x (set ?cs)"
    by auto
  ultimately have "headOk ?s2" using ok1 by (intro headOk_detach_reorder)
  moreover have "hasClass (elems ?s2) c x" using cl by (simp add: detach_def hasClass_def)
  moreover have "x < nextNode ?s2" using lt by (simp add: detach_def)
  moreover have "extends s ?s2" using ex by (simp add: extends_def detach_def)
  moreover have "headChildren ?s2 = Some (pre @ y # x # removeAll x rest)" by simp
  moreover have "andThen (createOrUpdateStyle c s)
             (\<lambda>x s1. andThen (headInsertBefore x (nextSibling y s1) s1) (\<lambda>u s2. K x s2)) = K x ?s2"
    by (simp add: r ins andThen_def)
  ultimately show ?thesis using ne by blast
qed

lemma place_last:
  assumes ok: "headOk s" and h: "headChildren s = Some cs" and c: "c \<in> set sentinelClasses"
  shows "\<exists>x s2.
           andThen (createOrUpdateStyle c s)
             (\<lambda>x s1. andThen (headAppendChild x s1) (\<lambda>u s2. K x s2)) = K x s2 \<and>
           headOk s2 \<and> headChildren s2 = Some (removeAll x cs @ [x]) \<and>
           hasClass (elems s2) c x \<and> x < nextNode s2 \<and> extends s s2 \<and>
           (\<forall>p \<in> set cs. \<forall>d \<in> set sentinelClasses.
              d \<noteq> c \<longrightarrow> hasClass (elems s) d p \<longrightarrow> x \<noteq> p)"
proof -
  obtain x s1 where r: "createOrUpdateStyle c s = Ok x s1" and h1: "headChildren s1 = Some cs"
    and ok1: "headOk (s1\<lparr>headChildren := Some (x # removeAll x cs)\<rparr>)"
    and cl: "hasClass (elems s1) c x" and lt: "x < nextNode s1" and ex: "extends s s1"
    and ne: "\<forall>p \<in> set cs. \<forall>d \<in> set sentinelClasses. d \<noteq> c \<longrightarrow> hasClass (elems s) d p \<longrightarrow> x \<noteq> p"
    using createOrUpdateStyle_spec[OF ok h c] by blast
  have d: "distinct cs" using ok h by (simp add: headOk_def)
  let ?s2 = "(detach x s1)\<lparr>headChildren := Some (removeAll x cs @ [x])\<rparr>"
  have ins: "headAppendChild x s1 = Ok () ?s2"
    using h1 by (rule insert_last)
  have "headOk ?s2"
    using ok1 d by (intro headOk_detach_reorder) (auto simp: distinct_removeAll)
  moreover have "hasClass (elems ?s2) c x" using cl by (simp add: detach_def hasClass_def)
  moreover have "x < nextNode ?s2" using lt by (simp add: detach_def)
  moreover have "extends s ?s2" using ex by (simp add: extends_def detach_def)
  moreover have "headChildren ?s2 = Some (removeAll x cs @ [x])" by simp
  moreover have "andThen (createOrUpdateStyle c s)
             (\<lambda>x s1. andThen (headAppendChild x s1) (\<lambda>u s2. K x s2)) = K x ?s2"
    by (simp add: r ins andThen_def)
  ultimately show ?thesis using ne by blast
qed

subsection \<open>The six blocks of \<open>createStaticStyleOverrides\<close>\<close>

lemma finish_facts:
  assumes "headOk s2" "headChildren s2 = Some cs" "hasClass (elems s2) c x" "x < nextNode s2"
    "extends s s2"
  shows "headOk (setupStylePositionWatcher x a (setTextContent x t s2))"
    "headChildren (setupStylePositionWatcher x a (setTextContent x t s2)) = Some cs"
    "hasClass (elems (setupStylePositionWatcher x a (setTextContent x t s2))) c x"
    "x < nextNode (setupStylePositionWatcher x a (setTextContent x t s2))"
    "extends s (setupStylePositionWatcher x a (setTextContent x t s2))"
  using assms extends_trans[OF assms(5) extends_finish[of s2 x a t]] by simp_all

lemma staticFallback_spec:
  assumes ok: "headOk s" and h: "headChildren s = Some cs"
  shows "\<exists>x s'. staticFallback E s = Ok x s' \<and> headOk s' \<and>
           headChildren s' = Some (x # removeAll x cs) \<and>
           hasClass (elems s') ''darkreader--fallback'' x \<and> x < nextNode s' \<and> extends s s'"
proof -
  have c: "''darkreader--fallback'' \<in> set sentinelClasses" by (simp add: sentinelClasses_def)
  have "\<exists>x s2. staticFallback E s = (\<lambda>x s2. Ok x (setupStylePositionWatcher x ''fallback''
              (setTextContent x (getModifiedFallbackStyle E (filterConfig s2) True) s2))) x s2 \<and> headOk s2 \<and>
           headChildren s2 = Some (x # removeAll x cs) \<and>
           hasClass (elems s2) ''darkreader--fallback'' x \<and> x < nextNode s2 \<and> extends s s2"
    unfolding staticFallback_def by (rule place_front[OF ok h c])
  then obtain x s2 where r: "staticFallback E s = (\<lambda>x s2. Ok x (setupStylePositionWatcher x ''fallback''
              (setTextContent x (getModifiedFallbackStyle E (filterConfig s2) True) s2))) x s2" and f: "headOk s2"
      "headChildren s2 = Some (x # removeAll x cs)"
      "hasClass (elems s2) ''darkreader--fallback'' x" "x < nextNode s2" "extends s s2"
    by (elim exE conjE)
  obtain t where k: "(\<lambda>x s2. Ok x (setupStylePositionWatcher x ''fallback''
              (setTextContent x (getModifiedFallbackStyle E (filterConfig s2) True) s2))) x s2 = Ok x (setupStylePositionWatcher x ''fallback'' (setTextContent x t s2))"
    by simp
  show ?thesis
  proof (intro exI conjI)
    show "staticFallback E s = Ok x (setupStylePositionWatcher x ''fallback'' (setTextContent x t s2))"
      using r k by simp
  qed (use finish_facts[OF f, of "''fallback''" t] in blast)+
qed

lemma staticUserAgent_spec:
  assumes ok: "headOk s" and h: "headChildren s = Some (pre @ y # rest)"
    and others: "\<forall>p \<in> set (pre @ [y]). \<exists>d \<in> set sentinelClasses.
                   d \<noteq> ''darkreader--user-agent'' \<and> hasClass (elems s) d p"
  shows "\<exists>x s'. staticUserAgent E y s = Ok () s' \<and> headOk s' \<and>
           headChildren s' = Some (pre @ y # x # removeAll x rest) \<and>
           hasClass (elems s') ''darkreader--user-agent'' x \<and> x < nextNode s' \<and> extends s s' \<and>
           (\<forall>p \<in> set (pre @ y # rest). \<forall>d \<in> set sentinelClasses.
              d \<noteq> ''darkreader--user-agent'' \<longrightarrow> hasClass (elems s) d p \<longrightarrow> x \<noteq> p)"
proof -
  have c: "''darkreader--user-agent'' \<in> set sentinelClasses" by (simp add: sentinelClasses_def)
  have "\<exists>x s2. staticUserAgent E y s = (\<lambda>x s2. Ok () (setupStylePositionWatcher x ''user-agent''
              (setTextContent x (getModifiedUserAgentStyle E (filterConfig s2) (isIFrame s2)) s2))) x s2 \<and> headOk s2 \<and>
           headChildren s2 = Some (pre @ y # x # removeAll x rest) \<and>
           hasClass (elems s2) ''darkreader--user-agent'' x \<and> x < nextNode s2 \<and> extends s s2 \<and>
           (\<forall>p \<in> set (pre @ y # rest). \<forall>d \<in> set sentinelClasses.
              d \<noteq> ''darkreader--user-agent'' \<longrightarrow> hasClass (elems s) d p \<longrightarrow> x \<noteq> p)"
    unfolding staticUserAgent_def by (rule place_after[OF ok h c others])
  then obtain x s2 where r: "staticUserAgent E y s = (\<lambda>x s2. Ok () (setupStylePositionWatcher x ''user-agent''
              (setTextContent x (getModifiedUserAgentStyle E (filterConfig s2) (isIFrame s2)) s2))) x s2" and f: "headOk s2"
      "headChildren s2 = Some (pre @ y # x # removeAll x rest)"
      "hasClass (elems s2) ''darkreader--user-agent'' x" "x < nextNode s2" "extends s s2"
    and ne: "(\<forall>p \<in> set (pre @ y # rest). \<forall>d \<in> set sentinelClasses.
              d \<noteq> ''darkreader--user-agent'' \<longrightarrow> hasClass (elems s) d p \<longrightarrow> x \<noteq> p)"
    by (elim exE conjE)
  obtain t where k: "(\<lambda>x s2. Ok () (setupStylePositionWatcher x ''user-agent''
              (setTextContent x (getModifiedUserAgentStyle E (filterConfig s2) (isIFrame s2)) s2))) x s2 = Ok () (setupStylePositionWatcher x ''user-agent'' (setTextContent x t s2))"
    by simp
  show ?thesis
  proof (intro exI conjI)
    show "staticUserAgent E y s = Ok () (setupStylePositionWatcher x ''user-agent'' (setTextContent x t s2))"
      using r k by simp
  qed (use finish_facts[OF f, of "''user-agent''" t] ne in blast)+
qed

lemma staticText_spec:
  assumes ok: "headOk s" and h: "headChildren s = Some (pre @ y # rest)"
    and cfg: "filterConfig s = Some f"
    and others: "\<forall>p \<in> set (pre @ [y]). \<exists>d \<in> set sentinelClasses.
                   d \<noteq> ''darkreader--text'' \<and> hasClass (elems s) d p"
  shows "\<exists>x s'. staticText E y s = Ok x s' \<and> headOk s' \<and>
           headChildren s' = Some (pre @ y # x # removeAll x rest) \<and>
           hasClass (elems s') ''darkreader--text'' x \<and> x < nextNode s' \<and> extends s s' \<and>
           (\<forall>p \<in> set (pre @ y # rest). \<forall>d \<in> set sentinelClasses.
              d \<noteq> ''darkreader--text'' \<longrightarrow> hasClass (elems s) d p \<longrightarrow> x \<noteq> p)"
proof -
  have c: "''darkreader--text'' \<in> set sentinelClasses" by (simp add: sentinelClasses_def)
  have "\<exists>x s2. staticText E y s = (\<lambda>x s2. (case filterConfig s2 of
          None \<Rightarrow> Threw TypeError s2
        | Some f \<Rightarrow>
            Ok x (setupStylePositionWatcher x ''text''
                  (setTextContent x
                     (if useFont f \<or> textStroke f > 0 then createTextStyle E f else []) s2)))) x s2 \<and> headOk s2 \<and>
           headChildren s2 = Some (pre @ y # x # removeAll x rest) \<and>
           hasClass (elems s2) ''darkreader--text'' x \<and> x < nextNode s2 \<and> extends s s2 \<and>
           (\<forall>p \<in> set (pre @ y # rest). \<forall>d \<in> set sentinelClasses.
              d \<noteq> ''darkreader--text'' \<longrightarrow> hasClass (elems s) d p \<longrightarrow> x \<noteq> p)"
    unfolding staticText_def by (rule place_after[OF ok h c others])
  then obtain x s2 where r: "staticText E y s = (\<lambda>x s2. (case filterConfig s2 of
          None \<Rightarrow> Threw TypeError s2
        | Some f \<Rightarrow>
            Ok x (setupStylePositionWatcher x ''text''
                  (setTextContent x
                     (if useFont f \<or> textStroke f > 0 then createTextStyle E f else []) s2)))) x s2" and f: "headOk s2"
      "headChildren s2 = Some (pre @ y # x # removeAll x rest)"
      "hasClass (elems s2) ''darkreader--text'' x" "x < nextNode s2" "extends s s2"
    and ne: "(\<forall>p \<in> set (pre @ y # rest). \<forall>d \<in> set sentinelClasses.
              d \<noteq> ''darkreader--text'' \<longrightarrow> hasClass (elems s) d p \<longrightarrow> x \<noteq> p)"
    by (elim exE conjE)
  have cfg2: "filterConfig s2 = Some f" using f(5) cfg by (simp add: extends_def)
  obtain t where k: "(\<lambda>x s2. (case filterConfig s2 of
          None \<Rightarrow> Threw TypeError s2
        | Some f \<Rightarrow>
            Ok x (setupStylePositionWatcher x ''text''
                  (setTextContent x
                     (if useFont f \<or> textStroke f > 0 then createTextStyle E f else []) s2)))) x s2 = Ok x (setupStylePositionWatcher x ''text'' (setTextContent x t s2))"
    using cfg2 by simp
  show ?thesis
  proof (intro exI conjI)
    show "staticText E y s = Ok x (setupStylePositionWatcher x ''text'' (setTextContent x t s2))"
      using r k by simp
  qed (use finish_facts[OF f, of "''text''" t] ne in blast)+
qed

lemma staticInvert_spec:
  assumes ok: "headOk s" and h: "headChildren s = Some (pre @ y # rest)"
    and cfg: "filterConfig s = Some f"
    and others: "\<forall>p \<in> set (pre @ [y]). \<exists>d \<in> set sentinelClasses.
                   d \<noteq> ''darkreader--invert'' \<and> hasClass (elems s) d p"
  shows "\<exists>x s'. staticInvert E y s = Ok x s' \<and> headOk s' \<and>
           headChildren s' = Some (pre @ y # x # removeAll x rest) \<and>
           hasClass (elems s') ''darkreader--invert'' x \<and> x < nextNode s' \<and> extends s s' \<and>
           (\<forall>p \<in> set (pre @ y # rest). \<forall>d \<in> set sentinelClasses.
              d \<noteq> ''darkreader--invert'' \<longrightarrow> hasClass (elems s) d p \<longrightarrow> x \<noteq> p)"
proof -
  have c: "''darkreader--invert'' \<in> set sentinelClasses" by (simp add: sentinelClasses_def)
  have "\<exists>x s2. staticInvert E y s = (\<lambda>x s2. (case (case themeFixes s2 of None \<Rightarrow> None | Some fx \<Rightarrow> invert fx) of
          Some (sel # sels) \<Rightarrow>
            (case filterConfig s2 of
               None \<Rightarrow> Threw TypeError s2
             | Some f \<Rightarrow>
                 Ok x (setupStylePositionWatcher x ''invert''
                       (setTextContent x (invertCSS E (sel # sels) f) s2)))
        | _ \<Rightarrow>
            Ok x (setupStylePositionWatcher x ''invert'' (setTextContent x [] s2)))) x s2 \<and> headOk s2 \<and>
           headChildren s2 = Some (pre @ y # x # removeAll x rest) \<and>
           hasClass (elems s2) ''darkreader--invert'' x \<and> x < nextNode s2 \<and> extends s s2 \<and>
           (\<forall>p \<in> set (pre @ y # rest). \<forall>d \<in> set sentinelClasses.
              d \<noteq> ''darkreader--invert'' \<longrightarrow> hasClass (elems s) d p \<longrightarrow> x \<noteq> p)"
    unfolding staticInvert_def by (rule place_after[OF ok h c others])
  then obtain x s2 where r: "staticInvert E y s = (\<lambda>x s2. (case (case themeFixes s2 of None \<Rightarrow> None | Some fx \<Rightarrow> invert fx) of
          Some (sel # sels) \<Rightarrow>
            (case filterConfig s2 of
               None \<Rightarrow> Threw TypeError s2
             | Some f \<Rightarrow>
                 Ok x (setupStylePositionWatcher x ''invert''
                       (setTextContent x (invertCSS E (sel # sels) f) s2)))
        | _ \<Rightarrow>
            Ok x (setupStylePositionWatcher x ''invert'' (setTextContent x [] s2)))) x s2" and f: "headOk s2"
      "headChildren s2 = Some (pre @ y # x # removeAll x rest)"
      "hasClass (elems s2) ''darkreader--invert'' x" "x < nextNode s2" "extends s s2"
    and ne: "(\<forall>p \<in> set (pre @ y # rest). \<forall>d \<in> set sentinelClasses.
              d \<noteq> ''darkreader--invert'' \<longrightarrow> hasClass (elems s) d p \<longrightarrow> x \<noteq> p)"
    by (elim exE conjE)
  have cfg2: "filterConfig s2 = Some f" using f(5) cfg by (simp add: extends_def)
  have "\<exists>t. (\<lambda>x s2. (case (case themeFixes s2 of None \<Rightarrow> None | Some fx \<Rightarrow> invert fx) of
          Some (sel # sels) \<Rightarrow>
            (case filterConfig s2 of
               None \<Rightarrow> Threw TypeError s2
             | Some f \<Rightarrow>
                 Ok x (setupStylePositionWatcher x ''invert''
                       (setTextContent x (invertCSS E (sel # sels) f) s2)))
        | _ \<Rightarrow>
            Ok x (setupStylePositionWatcher x ''invert'' (setTextContent x [] s2)))) x s2 = Ok x (setupStylePositionWatcher x ''invert'' (setTextContent x t s2))"
  proof (cases "case themeFixes s2 of None \<Rightarrow> None | Some fx \<Rightarrow> invert fx")
    case None
    then show ?thesis by (intro exI[of _ "[]"]) simp
  next
    case (Some selectors)
    show ?thesis
    proof (cases selectors)
      case Nil
      then show ?thesis using Some by (intro exI[of _ "[]"]) simp
    next
      case (Cons sel sels)
      then show ?thesis using Some cfg2 by (intro exI[of _ "invertCSS E (sel # sels) f"]) simp
    qed
  qed
  then obtain t where k: "(\<lambda>x s2. (case (case themeFixes s2 of None \<Rightarrow> None | Some fx \<Rightarrow> invert fx) of
          Some (sel # sels) \<Rightarrow>
            (case filterConfig s2 of
               None \<Rightarrow> Threw TypeError s2
             | Some f \<Rightarrow>
                 Ok x (setupStylePositionWatcher x ''invert''
                       (setTextContent x (invertCSS E (sel # sels) f) s2)))
        | _ \<Rightarrow>
            Ok x (setupStylePositionWatcher x ''invert'' (setTextContent x [] s2)))) x s2 = Ok x (setupStylePositionWatcher x ''invert'' (setTextContent x t s2))"
    by (elim exE)
  show ?thesis
  proof (intro exI conjI)
    show "staticInvert E y s = Ok x (setupStylePositionWatcher x ''invert'' (setTextContent x t s2))"
      using r k by simp
  qed (use finish_facts[OF f, of "''invert''" t] ne in blast)+
qed

lemma staticInline_spec:
  assumes ok: "headOk s" and h: "headChildren s = Some (pre @ y # rest)"
    and others: "\<forall>p \<in> set (pre @ [y]). \<exists>d \<in> set sentinelClasses.
                   d \<noteq> ''darkreader--inline'' \<and> hasClass (elems s) d p"
  shows "\<exists>x s'. staticInline E y s = Ok () s' \<and> headOk s' \<and>
           headChildren s' = Some (pre @ y # x # removeAll x rest) \<and>
           hasClass (elems s') ''darkreader--inline'' x \<and> x < nextNode s' \<and> extends s s' \<and>
           (\<forall>p \<in> set (pre @ y # rest). \<forall>d \<in> set sentinelClasses.
              d \<noteq> ''darkreader--inline'' \<longrightarrow> hasClass (elems s) d p \<longrightarrow> x \<noteq> p)"
proof -
  have c: "''darkreader--inline'' \<in> set sentinelClasses" by (simp add: sentinelClasses_def)
  have "\<exists>x s2. staticInline E y s = (\<lambda>x s2. Ok () (setupStylePositionWatcher x ''inline''
              (setTextContent x (getInlineOverrideStyle E) s2))) x s2 \<and> headOk s2 \<and>
           headChildren s2 = Some (pre @ y # x # removeAll x rest) \<and>
           hasClass (elems s2) ''darkreader--inline'' x \<and> x < nextNode s2 \<and> extends s s2 \<and>
           (\<forall>p \<in> set (pre @ y # rest). \<forall>d \<in> set sentinelClasses.
              d \<noteq> ''darkreader--inline'' \<longrightarrow> hasClass (elems s) d p \<longrightarrow> x \<noteq> p)"
    unfolding staticInline_def by (rule place_after[OF ok h c others])
  then obtain x s2 where r: "staticInline E y s = (\<lambda>x s2. Ok () (setupStylePositionWatcher x ''inline''
              (setTextContent x (getInlineOverrideStyle E) s2))) x s2" and f: "headOk s2"
      "headChildren s2 = Some (pre @ y # x # removeAll x rest)"
      "hasClass (elems s2) ''darkreader--inline'' x" "x < nextNode s2" "extends s s2"
    and ne: "(\<forall>p \<in> set (pre @ y # rest). \<forall>d \<in> set sentinelClasses.
              d \<noteq> ''darkreader--inline'' \<longrightarrow> hasClass (elems s) d p \<longrightarrow> x \<noteq> p)"
    by (elim exE conjE)
  obtain t where k: "(\<lambda>x s2. Ok () (setupStylePositionWatcher x ''inline''
              (setTextContent x (getInlineOverrideStyle E) s2))) x s2 = Ok () (setupStylePositionWatcher x ''inline'' (setTextContent x t s2))"
    by simp
  show ?thesis
  proof (intro exI conjI)
    show "staticInline E y s = Ok () (setupStylePositionWatcher x ''inline'' (setTextContent x t s2))"
      using r k by simp
  qed (use finish_facts[OF f, of "''inline''" t] ne in blast)+
qed

lemma staticOverride_spec:
  assumes ok: "headOk s" and h: "headChildren s = Some cs"
  shows "\<exists>x s'. staticOverride E s = Ok () s' \<and> headOk s' \<and>
           headChildren s' = Some (removeAll x cs @ [x]) \<and>
           hasClass (elems s') ''darkreader--override'' x \<and> x < nextNode s' \<and> extends s s' \<and>
           (\<forall>p \<in> set (cs). \<forall>d \<in> set sentinelClasses.
              d \<noteq> ''darkreader--override'' \<longrightarrow> hasClass (elems s) d p \<longrightarrow> x \<noteq> p)"
proof -
  have c: "''darkreader--override'' \<in> set sentinelClasses" by (simp add: sentinelClasses_def)
  have "\<exists>x s2. staticOverride E s = (\<lambda>x s2. Ok () (setupStylePositionWatcher x ''override''
              (setTextContent x (getSiteOverride E (locationHost E) (filterConfig s2)) s2))) x s2 \<and> headOk s2 \<and>
           headChildren s2 = Some (removeAll x cs @ [x]) \<and>
           hasClass (elems s2) ''darkreader--override'' x \<and> x < nextNode s2 \<and> extends s s2 \<and>
           (\<forall>p \<in> set (cs). \<forall>d \<in> set sentinelClasses.
              d \<noteq> ''darkreader--override'' \<longrightarrow> hasClass (elems s) d p \<longrightarrow> x \<noteq> p)"
    unfolding staticOverride_def by (rule place_last[OF ok h c])
  then obtain x s2 where r: "staticOverride E s = (\<lambda>x s2. Ok () (setupStylePositionWatcher x ''override''
              (setTextContent x (getSiteOverride E (locationHost E) (filterConfig s2)) s2))) x s2" and f: "headOk s2"
      "headChildren s2 = Some (removeAll x cs @ [x])"
      "hasClass (elems s2) ''darkreader--override'' x" "x < nextNode s2" "extends s s2"
    and ne: "(\<forall>p \<in> set (cs). \<forall>d \<in> set sentinelClasses.
              d \<noteq> ''darkreader--override'' \<longrightarrow> hasClass (elems s) d p \<longrightarrow> x \<noteq> p)"
    by (elim exE conjE)
  obtain t where k: "(\<lambda>x s2. Ok () (setupStylePositionWatcher x ''override''
              (setTextContent x (getSiteOverride E (locationHost E) (filterConfig s2)) s2))) x s2 = Ok () (setupStylePositionWatcher x ''override'' (setTextContent x t s2))"
    by simp
  show ?thesis
  proof (intro exI conjI)
    show "staticOverride E s = Ok () (setupStylePositionWatcher x ''override'' (setTextContent x t s2))"
      using r k by simp
  qed (use finish_facts[OF f, of "''override''" t] ne in blast)+
qed

subsection \<open>The order \<open>createStaticStyleOverrides\<close> leaves\<close>

lemma placed_extends:
  "hasClass (elems sA) c x \<and> x < nextNode sA \<Longrightarrow> extends sA sB \<Longrightarrow>
   hasClass (elems sB) c x \<and> x < nextNode sB"
  by (auto simp: extends_def hasClass_def)

lemma createStaticStyleOverrides_spec:
  assumes ok: "headOk s" and cfg: "filterConfig s = Some f" and h: "headChildren s = Some cs"
  shows "\<exists>s' x1 x2 x3 x4 x5 x6 R.
           createStaticStyleOverrides E s = Ok () s' \<and> headOk s' \<and>
           headChildren s' = Some (x1 # x3 # x4 # x5 # x2 # R @ [x6]) \<and>
           hasClass (elems s') ''darkreader--fallback'' x1 \<and>
           hasClass (elems s') ''darkreader--user-agent'' x2 \<and>
           hasClass (elems s') ''darkreader--text'' x3 \<and>
           hasClass (elems s') ''darkreader--invert'' x4 \<and>
           hasClass (elems s') ''darkreader--inline'' x5 \<and>
           hasClass (elems s') ''darkreader--override'' x6 \<and>
           extends s s' \<and> set R \<subseteq> set cs"
proof -
  \<comment> \<open>fallback\<close>
  obtain x1 s1 where r1: "staticFallback E s = Ok x1 s1" and ok1: "headOk s1"
    and h1: "headChildren s1 = Some (x1 # removeAll x1 cs)"
    and p1: "hasClass (elems s1) ''darkreader--fallback'' x1 \<and> x1 < nextNode s1"
    and e1: "extends s s1"
    using staticFallback_spec[OF ok h, of E] by blast
  define R1 where "R1 = removeAll x1 cs"
  have h1': "headChildren s1 = Some ([] @ x1 # R1)" using h1 by (simp add: R1_def)
  \<comment> \<open>user-agent, after the fallback style\<close>
  have o2: "\<forall>p \<in> set ([] @ [x1]). \<exists>d \<in> set sentinelClasses.
              d \<noteq> ''darkreader--user-agent'' \<and> hasClass (elems s1) d p"
    using p1 by (simp add: sentinelClasses_def)
  obtain x2 s2 where r2: "staticUserAgent E x1 s1 = Ok () s2" and ok2: "headOk s2"
    and h2: "headChildren s2 = Some ([] @ x1 # x2 # removeAll x2 R1)"
    and p2: "hasClass (elems s2) ''darkreader--user-agent'' x2 \<and> x2 < nextNode s2"
    and e2: "extends s1 s2"
    using staticUserAgent_spec[OF ok1 h1' o2, of E] by blast
  define R2 where "R2 = removeAll x2 R1"
  have q1: "hasClass (elems s2) ''darkreader--fallback'' x1 \<and> x1 < nextNode s2"
    using p1 e2 by (rule placed_extends)
  have h2': "headChildren s2 = Some ([] @ x1 # (x2 # R2))" using h2 by (simp add: R2_def)
  have cfg2: "filterConfig s2 = Some f" using cfg e1 e2 by (simp add: extends_def)
  \<comment> \<open>text, after the fallback style again\<close>
  have o3: "\<forall>p \<in> set ([] @ [x1]). \<exists>d \<in> set sentinelClasses.
              d \<noteq> ''darkreader--text'' \<and> hasClass (elems s2) d p"
    using q1 by (simp add: sentinelClasses_def)
  obtain x3 s3 where r3: "staticText E x1 s2 = Ok x3 s3" and ok3: "headOk s3"
    and h3: "headChildren s3 = Some ([] @ x1 # x3 # removeAll x3 (x2 # R2))"
    and p3: "hasClass (elems s3) ''darkreader--text'' x3 \<and> x3 < nextNode s3"
    and e3: "extends s2 s3"
    and n3: "\<forall>p \<in> set ([] @ x1 # (x2 # R2)). \<forall>d \<in> set sentinelClasses.
              d \<noteq> ''darkreader--text'' \<longrightarrow> hasClass (elems s2) d p \<longrightarrow> x3 \<noteq> p"
    using staticText_spec[OF ok2 h2' cfg2 o3, of E] by blast
  have "x3 \<noteq> x2" using n3 p2 by (simp add: sentinelClasses_def)
  define R3 where "R3 = removeAll x3 R2"
  have h3': "headChildren s3 = Some ([x1] @ x3 # (x2 # R3))"
    using h3 \<open>x3 \<noteq> x2\<close> by (simp add: R3_def)
  have q1: "hasClass (elems s3) ''darkreader--fallback'' x1 \<and> x1 < nextNode s3"
    using q1 e3 by (rule placed_extends)
  have q2: "hasClass (elems s3) ''darkreader--user-agent'' x2 \<and> x2 < nextNode s3"
    using p2 e3 by (rule placed_extends)
  have cfg3: "filterConfig s3 = Some f" using cfg2 e3 by (simp add: extends_def)
  \<comment> \<open>invert, after the text style\<close>
  have o4: "\<forall>p \<in> set ([x1] @ [x3]). \<exists>d \<in> set sentinelClasses.
              d \<noteq> ''darkreader--invert'' \<and> hasClass (elems s3) d p"
    using q1 p3 by (simp add: sentinelClasses_def)
  obtain x4 s4 where r4: "staticInvert E x3 s3 = Ok x4 s4" and ok4: "headOk s4"
    and h4: "headChildren s4 = Some ([x1] @ x3 # x4 # removeAll x4 (x2 # R3))"
    and p4: "hasClass (elems s4) ''darkreader--invert'' x4 \<and> x4 < nextNode s4"
    and e4: "extends s3 s4"
    and n4: "\<forall>p \<in> set ([x1] @ x3 # (x2 # R3)). \<forall>d \<in> set sentinelClasses.
              d \<noteq> ''darkreader--invert'' \<longrightarrow> hasClass (elems s3) d p \<longrightarrow> x4 \<noteq> p"
    using staticInvert_spec[OF ok3 h3' cfg3 o4, of E] by blast
  have "x4 \<noteq> x2" using n4 q2 by (simp add: sentinelClasses_def)
  define R4 where "R4 = removeAll x4 R3"
  have h4': "headChildren s4 = Some ([x1, x3] @ x4 # (x2 # R4))"
    using h4 \<open>x4 \<noteq> x2\<close> by (simp add: R4_def)
  have q1: "hasClass (elems s4) ''darkreader--fallback'' x1 \<and> x1 < nextNode s4"
    using q1 e4 by (rule placed_extends)
  have q2: "hasClass (elems s4) ''darkreader--user-agent'' x2 \<and> x2 < nextNode s4"
    using q2 e4 by (rule placed_extends)
  have q3: "hasClass (elems s4) ''darkreader--text'' x3 \<and> x3 < nextNode s4"
    using p3 e4 by (rule placed_extends)
  \<comment> \<open>inline, after the invert style\<close>
  have o5: "\<forall>p \<in> set ([x1, x3] @ [x4]). \<exists>d \<in> set sentinelClasses.
              d \<noteq> ''darkreader--inline'' \<and> hasClass (elems s4) d p"
    using q1 q3 p4 by (simp add: sentinelClasses_def)
  obtain x5 s5 where r5: "staticInline E x4 s4 = Ok () s5" and ok5: "headOk s5"
    and h5: "headChildren s5 = Some ([x1, x3] @ x4 # x5 # removeAll x5 (x2 # R4))"
    and p5: "hasClass (elems s5) ''darkreader--inline'' x5 \<and> x5 < nextNode s5"
    and e5: "extends s4 s5"
    and n5: "\<forall>p \<in> set ([x1, x3] @ x4 # (x2 # R4)). \<forall>d \<in> set sentinelClasses.
              d \<noteq> ''darkreader--inline'' \<longrightarrow> hasClass (elems s4) d p \<longrightarrow> x5 \<noteq> p"
    using staticInline_spec[OF ok4 h4' o5, of E] by blast
  have "x5 \<noteq> x2" using n5 q2 by (simp add: sentinelClasses_def)
  define R5 where "R5 = removeAll x5 R4"
  have h5': "headChildren s5 = Some (x1 # x3 # x4 # x5 # x2 # R5)"
    using h5 \<open>x5 \<noteq> x2\<close> by (simp add: R5_def)
  have q1: "hasClass (elems s5) ''darkreader--fallback'' x1 \<and> x1 < nextNode s5"
    using q1 e5 by (rule placed_extends)
  have q2: "hasClass (elems s5) ''darkreader--user-agent'' x2 \<and> x2 < nextNode s5"
    using q2 e5 by (rule placed_extends)
  have q3: "hasClass (elems s5) ''darkreader--text'' x3 \<and> x3 < nextNode s5"
    using q3 e5 by (rule placed_extends)
  have q4: "hasClass (elems s5) ''darkreader--invert'' x4 \<and> x4 < nextNode s5"
    using p4 e5 by (rule placed_extends)
  \<comment> \<open>override, last\<close>
  obtain x6 s6 where r6: "staticOverride E s5 = Ok () s6" and ok6: "headOk s6"
    and h6: "headChildren s6 = Some (removeAll x6 (x1 # x3 # x4 # x5 # x2 # R5) @ [x6])"
    and p6: "hasClass (elems s6) ''darkreader--override'' x6 \<and> x6 < nextNode s6"
    and e6: "extends s5 s6"
    and n6: "\<forall>p \<in> set (x1 # x3 # x4 # x5 # x2 # R5). \<forall>d \<in> set sentinelClasses.
              d \<noteq> ''darkreader--override'' \<longrightarrow> hasClass (elems s5) d p \<longrightarrow> x6 \<noteq> p"
    using staticOverride_spec[OF ok5 h5', of E] by blast
  have x6: "x6 \<noteq> x1" "x6 \<noteq> x2" "x6 \<noteq> x3" "x6 \<noteq> x4" "x6 \<noteq> x5"
    using n6 q1 q2 q3 q4 p5 by (simp_all add: sentinelClasses_def)
  define R6 where "R6 = removeAll x6 R5"
  have h6': "headChildren s6 = Some (x1 # x3 # x4 # x5 # x2 # R6 @ [x6])"
    using h6 x6 by (simp add: R6_def)
  have q1: "hasClass (elems s6) ''darkreader--fallback'' x1"
    using placed_extends[OF q1 e6] by simp
  have q2: "hasClass (elems s6) ''darkreader--user-agent'' x2"
    using placed_extends[OF q2 e6] by simp
  have q3: "hasClass (elems s6) ''darkreader--text'' x3"
    using placed_extends[OF q3 e6] by simp
  have q4: "hasClass (elems s6) ''darkreader--invert'' x4"
    using placed_extends[OF q4 e6] by simp
  have q5: "hasClass (elems s6) ''darkreader--inline'' x5"
    using placed_extends[OF p5 e6] by simp
  have ex: "extends s s6"
    using e1 e2 e3 e4 e5 e6 by (blast intro: extends_trans)
  have sub: "set R6 \<subseteq> set cs"
    by (auto simp: R6_def R5_def R4_def R3_def R2_def R1_def)
  have run: "createStaticStyleOverrides E s = Ok () s6"
    by (simp add: createStaticStyleOverrides_def andThen_def r1 r2 r3 r4 r5 r6)
  from run ok6 h6' q1 q2 q3 q4 q5 p6 ex sub show ?thesis by blast
qed

lemma filter_single:
  "distinct xs \<Longrightarrow> c \<in> set xs \<Longrightarrow> P c \<Longrightarrow> (\<And>d. d \<in> set xs \<Longrightarrow> P d \<Longrightarrow> d = c) \<Longrightarrow>
   filter P xs = [c]"
proof (induction xs)
  case Nil
  then show ?case by simp
next
  case (Cons a xs)
  show ?case
  proof (cases "a = c")
    case True
    have "\<not> P d" if "d \<in> set xs" for d
    proof
      assume "P d"
      then have "d = c" using Cons.prems(4)[of d] that by simp
      then show False using Cons.prems(1) True that by simp
    qed
    then have "filter P xs = []" by (simp add: filter_empty_conv)
    then show ?thesis using True Cons.prems(3) by simp
  next
    case False
    have na: "\<not> P a"
    proof
      assume "P a"
      then have "a = c" using Cons.prems(4)[of a] by simp
      then show False using False by simp
    qed
    have "filter P xs = [c]"
    proof (rule Cons.IH)
      show "distinct xs" using Cons.prems(1) by simp
      show "c \<in> set xs" using Cons.prems(2) False by simp
      show "P c" by (rule Cons.prems(3))
      show "d = c" if "d \<in> set xs" "P d" for d using Cons.prems(4)[of d] that by simp
    qed
    then show ?thesis using na by simp
  qed
qed

lemma headOkD:
  assumes "headOk s" "headChildren s = Some cs"
  shows "distinct cs \<and> (\<forall>n \<in> set cs. n < nextNode s) \<and>
         (\<forall>n \<in> set cs. \<forall>c \<in> set sentinelClasses. \<forall>d \<in> set sentinelClasses.
             hasClass (elems s) c n \<longrightarrow> hasClass (elems s) d n \<longrightarrow> c = d) \<and>
         (\<forall>n \<in> set cs. \<forall>m \<in> set cs. \<forall>c \<in> set sentinelClasses.
             hasClass (elems s) c n \<longrightarrow> hasClass (elems s) c m \<longrightarrow> n = m)"
  using assms(1) unfolding headOk_def assms(2) option.case .

lemma headOk_distinct: "headOk s \<Longrightarrow> headChildren s = Some cs \<Longrightarrow> distinct cs"
  by (drule headOkD) blast+

lemma headOk_unique:
  "headOk s \<Longrightarrow> headChildren s = Some cs \<Longrightarrow> n \<in> set cs \<Longrightarrow> m \<in> set cs \<Longrightarrow>
   e \<in> set sentinelClasses \<Longrightarrow> hasClass (elems s) e n \<Longrightarrow> hasClass (elems s) e m \<Longrightarrow> n = m"
  by (drule headOkD) blast+

lemma sentinelOf_single:
  assumes "headOk s" "headChildren s = Some cs" "x \<in> set cs" "c \<in> set sentinelClasses"
    "hasClass (elems s) c x"
  shows "sentinelOf (elems s) x = [c]"
  unfolding sentinelOf_def
proof (rule filter_single)
  show "distinct sentinelClasses" by (simp add: sentinelClasses_def)
  show "c \<in> set sentinelClasses" by (rule assms(4))
  show "hasClass (elems s) c x" by (rule assms(5))
  show "d = c" if "d \<in> set sentinelClasses" "hasClass (elems s) d x" for d
    using headOkD[OF assms(1,2)] assms(3,4,5) that by blast
qed

lemma sentinelOrder_of_shape:
  assumes ok: "headOk s" and h: "headChildren s = Some (x1 # x3 # x4 # x5 # x2 # R @ [x6])"
    and c1: "hasClass (elems s) ''darkreader--fallback'' x1"
    and c2: "hasClass (elems s) ''darkreader--user-agent'' x2"
    and c3: "hasClass (elems s) ''darkreader--text'' x3"
    and c4: "hasClass (elems s) ''darkreader--invert'' x4"
    and c5: "hasClass (elems s) ''darkreader--inline'' x5"
    and c6: "hasClass (elems s) ''darkreader--override'' x6"
  shows "sentinelOrder s =
           [''darkreader--fallback'', ''darkreader--text'', ''darkreader--invert'',
            ''darkreader--inline'', ''darkreader--user-agent'', ''darkreader--override'']"
proof -
  let ?cs = "x1 # x3 # x4 # x5 # x2 # R @ [x6]"
  have d: "distinct ?cs" using ok h by (rule headOk_distinct)
  note uniq = headOk_unique[OF ok h]
  have s1: "sentinelOf (elems s) x1 = [''darkreader--fallback'']"
    by (rule sentinelOf_single[OF ok h _ _ c1]) (simp_all add: sentinelClasses_def)
  have s2: "sentinelOf (elems s) x2 = [''darkreader--user-agent'']"
    by (rule sentinelOf_single[OF ok h _ _ c2]) (simp_all add: sentinelClasses_def)
  have s3: "sentinelOf (elems s) x3 = [''darkreader--text'']"
    by (rule sentinelOf_single[OF ok h _ _ c3]) (simp_all add: sentinelClasses_def)
  have s4: "sentinelOf (elems s) x4 = [''darkreader--invert'']"
    by (rule sentinelOf_single[OF ok h _ _ c4]) (simp_all add: sentinelClasses_def)
  have s5: "sentinelOf (elems s) x5 = [''darkreader--inline'']"
    by (rule sentinelOf_single[OF ok h _ _ c5]) (simp_all add: sentinelClasses_def)
  have s6: "sentinelOf (elems s) x6 = [''darkreader--override'']"
    by (rule sentinelOf_single[OF ok h _ _ c6]) (simp_all add: sentinelClasses_def)
  have none: "sentinelOf (elems s) r = []" if r: "r \<in> set R" for r
  proof -
    have rin: "r \<in> set ?cs" using r by simp
    have rne: "r \<noteq> x1" "r \<noteq> x2" "r \<noteq> x3" "r \<noteq> x4" "r \<noteq> x5" "r \<noteq> x6"
      using d r by auto
    have in1: "x1 \<in> set ?cs" "x2 \<in> set ?cs" "x3 \<in> set ?cs" "x4 \<in> set ?cs" "x5 \<in> set ?cs"
      "x6 \<in> set ?cs" by simp_all
    have mem: "''darkreader--fallback'' \<in> set sentinelClasses"
      "''darkreader--user-agent'' \<in> set sentinelClasses"
      "''darkreader--text'' \<in> set sentinelClasses"
      "''darkreader--invert'' \<in> set sentinelClasses"
      "''darkreader--inline'' \<in> set sentinelClasses"
      "''darkreader--override'' \<in> set sentinelClasses"
      by (simp_all add: sentinelClasses_def)
    have n1: "\<not> hasClass (elems s) ''darkreader--fallback'' r"
      using uniq[OF rin in1(1) mem(1) _ c1] rne(1) by blast
    have n2: "\<not> hasClass (elems s) ''darkreader--user-agent'' r"
      using uniq[OF rin in1(2) mem(2) _ c2] rne(2) by blast
    have n3: "\<not> hasClass (elems s) ''darkreader--text'' r"
      using uniq[OF rin in1(3) mem(3) _ c3] rne(3) by blast
    have n4: "\<not> hasClass (elems s) ''darkreader--invert'' r"
      using uniq[OF rin in1(4) mem(4) _ c4] rne(4) by blast
    have n5: "\<not> hasClass (elems s) ''darkreader--inline'' r"
      using uniq[OF rin in1(5) mem(5) _ c5] rne(5) by blast
    have n6: "\<not> hasClass (elems s) ''darkreader--override'' r"
      using uniq[OF rin in1(6) mem(6) _ c6] rne(6) by blast
    show ?thesis by (simp add: sentinelOf_def sentinelClasses_def n1 n2 n3 n4 n5 n6)
  qed
  then have "concat (map (sentinelOf (elems s)) R) = []" by simp
  then show ?thesis using h s1 s2 s3 s4 s5 s6 by (simp add: sentinelOrder_def)
qed



subsection \<open>The sweep leaves the document alone, up to text\<close>

lemma sameDocument_refl: "sameDocument s s"
  by (simp add: sameDocument_def)

lemma sameDocument_trans: "sameDocument s s1 \<Longrightarrow> sameDocument s1 s2 \<Longrightarrow> sameDocument s s2"
  by (simp add: sameDocument_def)

lemma sameDocument_setTextContent: "sameDocument s (setTextContent x t s)"
  by (simp add: sameDocument_def setTextContent_def)

lemma sameDocument_cleanFallbackStyle: "sameDocument s (stateOf (cleanFallbackStyle s))"
  by (simp add: cleanFallbackStyle_def sameDocument_refl sameDocument_setTextContent
      split: option.splits)

lemma sameDocument_createManagers: "sameDocument s (snd (createManagers ns s))"
  unfolding snd_createManagers
proof (induction ns arbitrary: s)
  case Nil
  then show ?case by (simp add: sameDocument_refl)
next
  case (Cons n ns)
  have "sameDocument s (snd (createManager n s))"
    by (simp add: sameDocument_def createManager_def Let_def)
  then show ?case using Cons[of "snd (createManager n s)"] by (auto intro: sameDocument_trans)
qed

lemma sameDocument_fold_updateVariables: "sameDocument s (fold (updateVariables E) vss s)"
proof (induction vss arbitrary: s)
  case Nil
  then show ?case by (simp add: sameDocument_refl)
next
  case (Cons v vss)
  have "sameDocument s (updateVariables E v s)"
    by (simp add: sameDocument_def updateVariables_def)
  then show ?case using Cons[of "updateVariables E v s"] by (auto intro: sameDocument_trans)
qed

lemma sameDocument_andThen:
  "sameDocument s (stateOf r) \<Longrightarrow> (\<And>x s1. sameDocument s1 (stateOf (f x s1))) \<Longrightarrow>
   sameDocument s (stateOf (andThen r f))"
  by (cases r) (auto simp: andThen_def intro: sameDocument_trans)

lemma sameDocument_createDynamicStyleOverrides:
  "sameDocument s (stateOf (createDynamicStyleOverrides E s))"
proof -
  let ?s0 = "cancelRendering s"
  let ?styles = "filter (\<lambda>style. \<not> hasManager style ?s0 \<and> shouldManageStyle E (elems ?s0 style))
                     (documentQuerySelectorAll (matchesStyleSelector E) ?s0)"
  obtain made s1 where cm: "createManagers ?styles ?s0 = (made, s1)" by (cases "createManagers ?styles ?s0")
  have "sameDocument s ?s0" by (simp add: sameDocument_def cancelRendering_def)
  moreover have "sameDocument ?s0 s1" using sameDocument_createManagers[of ?s0 ?styles] cm by simp
  ultimately have q1: "sameDocument s s1" by (rule sameDocument_trans)
  show ?thesis
  proof (cases "those made")
    case None
    then show ?thesis using cm q1 by (simp add: createDynamicStyleOverrides_def Let_def)
  next
    case (Some ms)
    let ?r = "renderManagers (map fst (styleManagers s1)) s1"
    have a: "sameDocument s1 ?r" by (simp add: sameDocument_def renderManagers_def)
    have b: "sameDocument s1 (stateOf (cleanFallbackStyle ?r))"
      using a sameDocument_cleanFallbackStyle[of ?r] by (rule sameDocument_trans)
    have c: "sameDocument s1 (throttledRenderAllStyles True (fold (updateVariables E) (collectVariables E ms) s1))"
      using sameDocument_fold_updateVariables[of s1 E "collectVariables E ms"]
      by (simp add: sameDocument_def throttledRenderAllStyles_def)
    have "sameDocument s1 (stateOf (andThen
            (if collectVariables E ms = [] then
               (let s2 = renderManagers (map fst (styleManagers s1)) s1
                in if loadingStyles s2 = [] then cleanFallbackStyle s2 else Ok () s2)
             else Ok () (throttledRenderAllStyles True (fold (updateVariables E) (collectVariables E ms) s1)))
            (\<lambda>_ s3. Ok () (overrideInlineStyles (watchManagers ms s3)))))"
    proof (rule sameDocument_andThen)
      show "sameDocument s1 (stateOf
            (if collectVariables E ms = [] then
               (let s2 = renderManagers (map fst (styleManagers s1)) s1
                in if loadingStyles s2 = [] then cleanFallbackStyle s2 else Ok () s2)
             else Ok () (throttledRenderAllStyles True (fold (updateVariables E) (collectVariables E ms) s1))))"
        using a b c by (simp add: Let_def)
    next
      fix x :: unit and s3
      show "sameDocument s3 (stateOf (Ok () (overrideInlineStyles (watchManagers ms s3))))"
        by (simp add: sameDocument_def overrideInlineStyles_def watchManagers_def)
    qed
    then have "sameDocument s (stateOf (andThen
            (if collectVariables E ms = [] then
               (let s2 = renderManagers (map fst (styleManagers s1)) s1
                in if loadingStyles s2 = [] then cleanFallbackStyle s2 else Ok () s2)
             else Ok () (throttledRenderAllStyles True (fold (updateVariables E) (collectVariables E ms) s1)))
            (\<lambda>_ s3. Ok () (overrideInlineStyles (watchManagers ms s3)))))"
      using q1 by (rule sameDocument_trans[rotated])
    then show ?thesis using cm Some by (simp add: createDynamicStyleOverrides_def Let_def)
  qed
qed

lemma sameDocument_sentinelOrder: "sameDocument s s' \<Longrightarrow> sentinelOrder s' = sentinelOrder s"
proof -
  assume a: "sameDocument s s'"
  then have "hasClass (elems s') c n = hasClass (elems s) c n" for c n
    by (simp add: sameDocument_def hasClass_def)
  then have "sentinelOf (elems s') = sentinelOf (elems s)"
    by (simp add: sentinelOf_def fun_eq_iff)
  then show ?thesis using a by (simp add: sentinelOrder_def sameDocument_def split: option.splits)
qed

lemma sameDocument_headOk: "sameDocument s s' \<Longrightarrow> headOk s' = headOk s"
proof -
  assume a: "sameDocument s s'"
  then have "hasClass (elems s') c n = hasClass (elems s) c n" for c n
    by (simp add: sameDocument_def hasClass_def)
  then have hc: "hasClass (elems s') = hasClass (elems s)" by (intro ext)
  have hd: "headChildren s' = headChildren s" and nn: "nextNode s' = nextNode s"
    using a by (simp_all add: sameDocument_def)
  show ?thesis unfolding headOk_def hc hd nn by (rule refl)
qed

subsection \<open>The order of the sentinel styles\<close>

lemma sameDocument_watchForUpdates: "sameDocument s (watchForUpdates s)"
  by (simp add: sameDocument_def watchForUpdates_def)

lemma sameDocument_watchForDocumentVisibility: "sameDocument s (watchForDocumentVisibility s)"
  by (simp add: sameDocument_def watchForDocumentVisibility_def Let_def)

lemma sameDocument_after_sweep:
  "sameDocument s
     (stateOf (andThen (createDynamicStyleOverrides E s) (\<lambda>_ s2. Ok () (watchForUpdates s2))))"
  by (rule sameDocument_andThen[OF sameDocument_createDynamicStyleOverrides])
     (simp add: sameDocument_watchForUpdates)

lemma createStaticStyleOverrides_order:
  assumes ok: "headOk s" and cfg: "filterConfig s = Some f"
  shows "\<exists>s'. createStaticStyleOverrides E s = Ok () s' \<and> headOk s' \<and>
           sentinelOrder s' =
             [''darkreader--fallback'', ''darkreader--text'', ''darkreader--invert'',
              ''darkreader--inline'', ''darkreader--user-agent'', ''darkreader--override'']"
proof -
  obtain cs where h: "headChildren s = Some cs"
    using ok by (cases "headChildren s") (simp_all add: headOk_def)
  obtain s' x1 x2 x3 x4 x5 x6 R where
    r: "createStaticStyleOverrides E s = Ok () s'" and ok': "headOk s'" and
    h': "headChildren s' = Some (x1 # x3 # x4 # x5 # x2 # R @ [x6])" and
    c: "hasClass (elems s') ''darkreader--fallback'' x1"
       "hasClass (elems s') ''darkreader--user-agent'' x2"
       "hasClass (elems s') ''darkreader--text'' x3"
       "hasClass (elems s') ''darkreader--invert'' x4"
       "hasClass (elems s') ''darkreader--inline'' x5"
       "hasClass (elems s') ''darkreader--override'' x6"
    using createStaticStyleOverrides_spec[OF ok cfg h, of E] by blast
  have "sentinelOrder s' =
             [''darkreader--fallback'', ''darkreader--text'', ''darkreader--invert'',
              ''darkreader--inline'', ''darkreader--user-agent'', ''darkreader--override'']"
    using ok' h' c by (rule sentinelOrder_of_shape)
  then show ?thesis using r ok' by blast
qed

text \<open>
  C1, as stated, fails: the text style is inserted after the fallback style, not after the
  user-agent style, so the user-agent style ends up behind the inline style. On the example
  page (one style sheet in the head) the children of the head after
  \<open>createOrUpdateDynamicTheme\<close> are fallback, text, invert, inline, user-agent, the page's
  style sheet, override.
\<close>

theorem static_styles_order_counterexample:
  "sentinelOrder (stateOf (createOrUpdateDynamicTheme exampleEnv exampleConfig None False examplePage))
     \<noteq> [''darkreader--fallback'', ''darkreader--user-agent'', ''darkreader--text'',
         ''darkreader--invert'', ''darkreader--inline'', ''darkreader--override''] \<and>
   \<not> threw (createOrUpdateDynamicTheme exampleEnv exampleConfig None False examplePage) \<and>
   headChildren (stateOf (createOrUpdateDynamicTheme exampleEnv exampleConfig None False examplePage))
     = Some [1, 3, 4, 5, 2, 0, 6] \<and>
   map (\<lambda>n. classList (elems (stateOf
          (createOrUpdateDynamicTheme exampleEnv exampleConfig None False examplePage)) n))
       [1, 3, 4, 5, 2, 6]
     = [[''darkreader'', ''darkreader--fallback''], [''darkreader'', ''darkreader--text''],
        [''darkreader'', ''darkreader--invert''], [''darkreader'', ''darkreader--inline''],
        [''darkreader'', ''darkreader--user-agent''], [''darkreader'', ''darkreader--override'']]"
  by code_simp

text \<open>
  C1, amended. On a head whose children are distinct existing nodes, none with two sentinel
  classes and no sentinel class on two of them, \<open>createStaticStyleOverrides\<close> (run by
  \<open>createOrUpdateDynamicTheme\<close> when the document has a head) returns normally, and the six
  sentinel styles are then direct children of the head in this relative order: fallback,
  text, invert, inline, user-agent, override; no other child of the head carries a
  sentinel class. The order is still that one when \<open>createOrUpdateDynamicTheme\<close> is over.
\<close>

theorem static_styles_order:
  "headOk s \<longrightarrow>
     (\<exists>s'. createStaticStyleOverrides E
              (s\<lparr>filterConfig := Some config, themeFixes := fx, isIFrame := Some iframe\<rparr>) = Ok () s' \<and>
           headOk s' \<and>
           sentinelOrder s' =
             [''darkreader--fallback'', ''darkreader--text'', ''darkreader--invert'',
              ''darkreader--inline'', ''darkreader--user-agent'', ''darkreader--override'']) \<and>
     sentinelOrder (stateOf (createOrUpdateDynamicTheme E config fx iframe s)) =
       [''darkreader--fallback'', ''darkreader--text'', ''darkreader--invert'',
        ''darkreader--inline'', ''darkreader--user-agent'', ''darkreader--override'']"
proof
  assume ok: "headOk s"
  let ?s0 = "s\<lparr>filterConfig := Some config, themeFixes := fx, isIFrame := Some iframe\<rparr>"
  let ?order = "[''darkreader--fallback'', ''darkreader--text'', ''darkreader--invert'',
        ''darkreader--inline'', ''darkreader--user-agent'', ''darkreader--override'']"
  have "sameDocument s ?s0" by (simp add: sameDocument_def)
  then have ok0: "headOk ?s0" using ok by (simp add: sameDocument_headOk)
  have cfg0: "filterConfig ?s0 = Some config" by simp
  obtain s1 where r: "createStaticStyleOverrides E ?s0 = Ok () s1" and ok1: "headOk s1"
    and o1: "sentinelOrder s1 = ?order"
    using createStaticStyleOverrides_order[OF ok0 cfg0, of E] by blast
  have hd: "headChildren ?s0 \<noteq> None"
    using ok by (cases "headChildren s") (simp_all add: headOk_def)
  have "sameDocument s1 (stateOf (createThemeAndWatchForUpdates E ?s0))"
    using r sameDocument_after_sweep[of s1 E] sameDocument_watchForDocumentVisibility[of s1]
    by (simp add: createThemeAndWatchForUpdates_def andThen_def)
  then have "sentinelOrder (stateOf (createThemeAndWatchForUpdates E ?s0)) = ?order"
    using o1 by (simp add: sameDocument_sentinelOrder)
  moreover have "createOrUpdateDynamicTheme E config fx iframe s = createThemeAndWatchForUpdates E ?s0"
    using hd by (simp add: createOrUpdateDynamicTheme_def Let_def)
  ultimately show "(\<exists>s'. createStaticStyleOverrides E ?s0 = Ok () s' \<and> headOk s' \<and>
           sentinelOrder s' = ?order) \<and>
     sentinelOrder (stateOf (createOrUpdateDynamicTheme E config fx iframe s)) = ?order"
    using r ok1 o1 by simp
qed

theorem static_styles_order_witness:
  "headOk examplePage \<and>
   sentinelOrder (stateOf (createOrUpdateDynamicTheme exampleEnv exampleConfig None False examplePage)) =
     [''darkreader--fallback'', ''darkreader--text'', ''darkreader--invert'',
      ''darkreader--inline'', ''darkreader--user-agent'', ''darkreader--override'']"
proof -
  have h: "headOk examplePage" by code_simp
  show ?thesis
    using static_styles_order[where s = examplePage and E = exampleEnv and config = exampleConfig
        and fx = None and iframe = False] h by simp
qed

subsection \<open>Properties that pass through the static overrides and through the sweep\<close>








subsection \<open>A hidden document\<close>










text \<open>
  Why the amended statement asks that no visibility listener be registered: a second
  \<open>createOrUpdateDynamicTheme\<close> on the hidden document replaces \<open>documentVisibilityListener\<close>
  by a closure that is never registered, so the registered one, when it fires, removes the
  other and stays registered.
\<close>

lemma visibility_listener_of_first_call_stays:
  "visibilityListeners
     (dispatch exampleEnv (VisibilityChange False)
        (stateOf (createOrUpdateDynamicTheme exampleEnv exampleConfig None False
           (stateOf (createOrUpdateDynamicTheme exampleEnv exampleConfig None False
              (examplePage\<lparr>hidden := True\<rparr>)))))) = [0]"
  by code_simp

(*THMS*)

end
